theory Spec2Isabelle
  imports Complex_Main "HOL-Library.Sublist"
begin

section \<open>The cursor controller of python\_ghost\_cursor (playwright\_async/\_spoof.py)\<close>

text \<open>
  The module drives a browser page: every \<^verbatim>\<open>await\<close> of the source is a call on an
  external object (the page's mouse, its touchscreen, the browser, asyncio) that returns a
  value or raises, and a point where other tasks of the event loop may run. The model makes
  both explicit. The external objects are one abstract world \<open>'w\<close>, reached through the
  \<^verbatim>\<open>page\<close> field as in the source; their behaviour is a record of functions on that
  world. An exception is a value: a computation returns \<open>Inl exc\<close> when it raises and
  \<open>Inr v\<close> when it returns \<open>v\<close>.
\<close>

subsection \<open>Data\<close>

text \<open>\<^verbatim>\<open>Vector\<close> of shared/\_math.py: the fields \<^verbatim>\<open>x\<close> and \<^verbatim>\<open>y\<close>.\<close>

datatype Vector = Vector (vec_x: real) (vec_y: real)

text \<open>Modelled from the spec: the constant \<^verbatim>\<open>origin\<close> of shared/\_math.py, which is
  not among the sources; the spec calls it the origin point \<open>(0,0)\<close>.\<close>

definition origin :: Vector where
  "origin = Vector 0 0"

text \<open>The bounding-box dictionary with the keys \<^verbatim>\<open>x\<close>, \<^verbatim>\<open>y\<close>, \<^verbatim>\<open>width\<close>,
  \<^verbatim>\<open>height\<close>.\<close>

record Box =
  box_x :: real
  box_y :: real
  box_width :: real
  box_height :: real

datatype ElementHandle = ElementHandle nat

datatype CDPSession = CDPSession nat

text \<open>\<^verbatim>\<open>Union[str, ElementHandle]\<close>.\<close>

datatype selector = Str string | Handle ElementHandle

text \<open>The second argument of \<^verbatim>\<open>path\<close>: a point or a box.\<close>

datatype target = ToVector Vector | ToBox Box

text \<open>A Python number: an \<^verbatim>\<open>int\<close>, of any size, or a \<^verbatim>\<open>float\<close>.\<close>

datatype number = PyInt int | PyFloat real

text \<open>Python's exceptions, as far as the handlers of the module tell them apart:
  \<^verbatim>\<open>except Exception\<close> catches the first kind only (\<^verbatim>\<open>asyncio.CancelledError\<close> and
  \<^verbatim>\<open>KeyboardInterrupt\<close> are of the second), a bare \<^verbatim>\<open>except:\<close> catches both.\<close>

datatype exn = Exception string | BaseException string

text \<open>The calls the controller makes on its collaborators, and what it writes to the
  logger. The history of a run is the list of these, each call with whether it returned
  (\<open>True\<close>) or raised (\<open>False\<close>).\<close>

datatype request =
    MouseMove Vector
  | MouseDown
  | MouseUp
  | Tap Vector
  | IsConnected
  | Evaluate
  | WaitForSelector string real
  | QuerySelector string
  | ScrollIntoView ElementHandle
  | BoundingBox ElementHandle
  | TargetId
  | NewCdpSession
  | GetWindowForTarget
  | Sleep real
  | EnsureFuture

datatype event = Call request bool | Log string

type_synonym ('a, 'w) io = "'w \<Rightarrow> (exn + 'a) \<times> 'w"

text \<open>The collaborators. The first group is the Playwright page and asyncio; the second is
  the process-wide random source and the functions of shared/\_math.py and shared/\_spoof.py
  that draw from it (\<^verbatim>\<open>should_overshoot\<close> draws nothing); \<open>other_tasks\<close> is what the
  tasks that run while this one is suspended at an \<^verbatim>\<open>await\<close> do to the flag
  \<^verbatim>\<open>moving\<close>: \<open>None\<close> when they leave it alone, \<open>Some b\<close> when they leave it at \<open>b\<close>.
  The last is Python's division \<^verbatim>\<open>/\<close> of two numbers: it gives the quotient rounded
  to a \<^verbatim>\<open>float\<close>, or raises (\<^verbatim>\<open>OverflowError\<close> when an \<^verbatim>\<open>int\<close> is too large
  for a \<^verbatim>\<open>float\<close>, \<^verbatim>\<open>ZeroDivisionError\<close>). It does not act on the page. The floating
  point arithmetic is not modelled: the theorems hold for every such function.\<close>

record 'w env =
  mouse_move :: "Vector \<Rightarrow> (unit, 'w) io"
  mouse_down :: "(unit, 'w) io"
  mouse_up :: "(unit, 'w) io"
  touchscreen_tap :: "Vector \<Rightarrow> (unit, 'w) io"
  browser_is_connected :: "(bool, 'w) io"
  evaluate :: "(bool, 'w) io"
  wait_for_selector :: "string \<Rightarrow> real \<Rightarrow> (unit, 'w) io"
  query_selector :: "string \<Rightarrow> (ElementHandle option, 'w) io"
  scroll_into_view_if_needed :: "ElementHandle \<Rightarrow> (unit, 'w) io"
  bounding_box :: "ElementHandle \<Rightarrow> (Box option, 'w) io"
  target_id :: "(string, 'w) io"
  new_cdp_session :: "(CDPSession, 'w) io"
  get_window_for_target :: "CDPSession \<Rightarrow> string \<Rightarrow> (real \<times> real, 'w) io"
  sleep :: "real \<Rightarrow> (unit, 'w) io"
  ensure_future :: "(unit, 'w) io"
  random :: "'w \<Rightarrow> real \<times> 'w"
  get_random_box_point :: "Box \<Rightarrow> real option \<Rightarrow> 'w \<Rightarrow> Vector \<times> 'w"
  overshoot :: "Vector \<Rightarrow> real \<Rightarrow> 'w \<Rightarrow> Vector \<times> 'w"
  path :: "Vector \<Rightarrow> target \<Rightarrow> real option \<Rightarrow> 'w \<Rightarrow> Vector list \<times> 'w"
  should_overshoot :: "Vector \<Rightarrow> Vector \<Rightarrow> bool"
  other_tasks :: "'w \<Rightarrow> bool option"
  truediv :: "number \<Rightarrow> number \<Rightarrow> exn + real"

text \<open>The object: the fields \<^verbatim>\<open>__init__\<close> sets, \<^verbatim>\<open>cdp_session\<close> (absent until
  \<^verbatim>\<open>get_cdp_session\<close> sets it), and the history of the calls made through it, which the
  Python object does not hold: it is what the theorems observe.\<close>

record 'w GhostCursor =
  page :: 'w
  previous :: Vector
  moving :: bool
  overshoot_spread :: real
  overshoot_radius :: real
  is_mobile :: "bool option"
  cdp_session :: "CDPSession option"
  history :: "event list"

type_synonym ('a, 'w) action = "'w GhostCursor \<Rightarrow> (exn + 'a) \<times> 'w GhostCursor"

subsection \<open>Calls, awaits and the logger\<close>

definition is_ok :: "exn + 'a \<Rightarrow> bool" where
  "is_ok r = (case r of Inl _ \<Rightarrow> False | Inr _ \<Rightarrow> True)"

text \<open>A call on a collaborator: it acts on the world and is written to the history.\<close>

definition call :: "request \<Rightarrow> ('a, 'w) io \<Rightarrow> ('a, 'w) action" where
  "call rq f s =
     (case f (page s) of
        (r, w) \<Rightarrow> (r, s\<lparr>page := w, history := history s @ [Call rq (is_ok r)]\<rparr>))"

text \<open>An awaited call: while it is pending the other tasks run.\<close>

definition await :: "'w env \<Rightarrow> request \<Rightarrow> ('a, 'w) io \<Rightarrow> ('a, 'w) action" where
  "await env rq f s =
     (case call rq f s of
        (r, s') \<Rightarrow>
          (r, case other_tasks env (page s') of
                None \<Rightarrow> s'
              | Some b \<Rightarrow> s'\<lparr>moving := b\<rparr>))"

text \<open>A draw from the random source: it cannot raise and is not in the history.\<close>

definition draw :: "('w \<Rightarrow> 'a \<times> 'w) \<Rightarrow> ('a, 'w) action" where
  "draw f s = (case f (page s) of (a, w) \<Rightarrow> (Inr a, s\<lparr>page := w\<rparr>))"

definition logger_debug :: "string \<Rightarrow> 'w GhostCursor \<Rightarrow> 'w GhostCursor" where
  "logger_debug msg s = s\<lparr>history := history s @ [Log msg]\<rparr>"

text \<open>Returning a value, raising, reading a field of the object and assigning to it.\<close>

definition return :: "'a \<Rightarrow> ('a, 'w) action" where
  "return a s = (Inr a, s)"

definition raise :: "exn \<Rightarrow> ('a, 'w) action" where
  "raise exc s = (Inl exc, s)"

definition get :: "('w GhostCursor \<Rightarrow> 'a) \<Rightarrow> ('a, 'w) action" where
  "get field s = (Inr (field s), s)"

definition modify :: "('w GhostCursor \<Rightarrow> 'w GhostCursor) \<Rightarrow> (unit, 'w) action" where
  "modify f s = (Inr (), f s)"

text \<open>The value of an expression, which may raise.\<close>

definition compute :: "exn + 'a \<Rightarrow> ('a, 'w) action" where
  "compute r s = (r, s)"

text \<open>Sequencing: the second computation runs when the first returns.\<close>

definition bind :: "('a, 'w) action \<Rightarrow> ('a \<Rightarrow> ('b, 'w) action) \<Rightarrow> ('b, 'w) action" where
  "bind m k s = (case m s of (Inl exc, s') \<Rightarrow> (Inl exc, s') | (Inr a, s') \<Rightarrow> k a s')"

text \<open>\<^verbatim>\<open>try: ... except Exception as exc: ...\<close> and \<^verbatim>\<open>try: ... except: ...\<close>.\<close>

definition except_Exception ::
  "('a, 'w) action \<Rightarrow> (string \<Rightarrow> ('a, 'w) action) \<Rightarrow> ('a, 'w) action"
where
  "except_Exception m handler s =
     (case m s of
        (Inl (Exception msg), s') \<Rightarrow> handler msg s'
      | (Inl (BaseException msg), s') \<Rightarrow> (Inl (BaseException msg), s')
      | (Inr a, s') \<Rightarrow> (Inr a, s'))"

definition except_all :: "('a, 'w) action \<Rightarrow> ('a, 'w) action \<Rightarrow> ('a, 'w) action" where
  "except_all m handler s =
     (case m s of
        (Inl exc, s') \<Rightarrow> handler s'
      | (Inr a, s') \<Rightarrow> (Inr a, s'))"

subsection \<open>The class GhostCursor\<close>

definition GhostCursor_init :: "'w \<Rightarrow> Vector \<Rightarrow> 'w GhostCursor" where
  "GhostCursor_init pg start =
     \<lparr>page = pg, previous = start, moving = False, overshoot_spread = 10,
      overshoot_radius = 120, is_mobile = None, cdp_session = None, history = []\<rparr>"

definition detect_mobile :: "'w env \<Rightarrow> (bool, 'w) action" where
  "detect_mobile env =
     bind (get is_mobile) (\<lambda>cached.
       case cached of
         None \<Rightarrow>
           bind (await env Evaluate (evaluate env)) (\<lambda>b.
           bind (modify (\<lambda>s. s\<lparr>is_mobile := Some b\<rparr>)) (\<lambda>u.
             return b))
       | Some b \<Rightarrow> return b)"

definition get_cdp_session :: "'w env \<Rightarrow> (CDPSession, 'w) action" where
  "get_cdp_session env =
     bind (get cdp_session) (\<lambda>cached.
       case cached of
         None \<Rightarrow>
           bind (await env NewCdpSession (new_cdp_session env)) (\<lambda>c.
           bind (modify (\<lambda>s. s\<lparr>cdp_session := Some c\<rparr>)) (\<lambda>u.
             return c))
       | Some c \<Rightarrow> return c)"

text \<open>\<^verbatim>\<open>get_random_page_point\<close>: the target id is read, the session fetched, the window
  asked for (the source does not await this call) and a point drawn in the box of the
  window's width and height at the origin.\<close>

definition get_random_page_point :: "'w env \<Rightarrow> (Vector, 'w) action" where
  "get_random_page_point env =
     bind (call TargetId (target_id env)) (\<lambda>tid.
     bind (get_cdp_session env) (\<lambda>c.
     bind (call GetWindowForTarget (get_window_for_target env c tid)) (\<lambda>bounds.
       draw (get_random_box_point env
               \<lparr>box_x = vec_x origin, box_y = vec_y origin,
                box_width = fst bounds, box_height = snd bounds\<rparr> None))))"

text \<open>\<^verbatim>\<open>trace_path\<close>. One turn of the loop is \<open>trace_step\<close>: it ends by going on to the
  next vector (\<open>Continue\<close>: the end of the \<^verbatim>\<open>try\<close> or of the handler was reached), by
  \<^verbatim>\<open>return\<close> (\<open>Return\<close>), or by raising. The \<^verbatim>\<open>try\<close> is inside the loop: after the
  handler has logged, the loop goes on. The call of \<^verbatim>\<open>is_connected\<close> is in the handler,
  so what it raises leaves the function, as does what \<^verbatim>\<open>except Exception\<close> does not
  catch.\<close>

datatype flow = Continue | Return

definition trace_step :: "'w env \<Rightarrow> Vector \<Rightarrow> bool \<Rightarrow> (flow, 'w) action" where
  "trace_step env v abort_on_move s =
     (if abort_on_move \<and> moving s then (Inr Return, s)
      else
        (case await env (MouseMove v) (mouse_move env v) s of
           (Inr u, s1) \<Rightarrow> (Inr Continue, s1\<lparr>previous := v\<rparr>)
         | (Inl (BaseException msg), s1) \<Rightarrow> (Inl (BaseException msg), s1)
         | (Inl (Exception msg), s1) \<Rightarrow>
             (case await env IsConnected (browser_is_connected env) s1 of
                (Inl exc, s2) \<Rightarrow> (Inl exc, s2)
              | (Inr still_connected, s2) \<Rightarrow>
                  if \<not> still_connected then (Inr Return, s2)
                  else (Inr Continue,
                        logger_debug
                          (''Warning: could not move mouse, error message: '' @ msg) s2))))"

fun trace_path :: "'w env \<Rightarrow> Vector list \<Rightarrow> bool \<Rightarrow> (unit, 'w) action" where
  "trace_path env [] abort_on_move s = (Inr (), s)"
| "trace_path env (v # vectors) abort_on_move s =
     (case trace_step env v abort_on_move s of
        (Inl exc, s') \<Rightarrow> (Inl exc, s')
      | (Inr Return, s') \<Rightarrow> (Inr (), s')
      | (Inr Continue, s') \<Rightarrow> trace_path env vectors abort_on_move s')"

text \<open>The state at the head of the loop once every vector of a prefix has been gone
  through without leaving the function; \<open>None\<close> when the function was left before.\<close>

fun loop_head :: "'w env \<Rightarrow> Vector list \<Rightarrow> bool \<Rightarrow> 'w GhostCursor \<Rightarrow> 'w GhostCursor option" where
  "loop_head env [] abort_on_move s = Some s"
| "loop_head env (v # vectors) abort_on_move s =
     (case trace_step env v abort_on_move s of
        (Inr Continue, s') \<Rightarrow> loop_head env vectors abort_on_move s'
      | _ \<Rightarrow> None)"

definition toggle_random_move :: "bool \<Rightarrow> 'w GhostCursor \<Rightarrow> 'w GhostCursor" where
  "toggle_random_move rnd s = s\<lparr>moving := \<not> rnd\<rparr>"

text \<open>\<^verbatim>\<open>if wait_for_selector:\<close> is Python's truth test: \<^verbatim>\<open>None\<close> and \<open>0\<close> are false.\<close>

definition truthy :: "real option \<Rightarrow> bool" where
  "truthy t = (case t of None \<Rightarrow> False | Some r \<Rightarrow> r \<noteq> 0)"

definition not_found_message :: "string \<Rightarrow> string" where
  "not_found_message sel =
     ''Could not find element with selector \"$'' @ sel
       @ ''\", make sure you're waiting for the elements with \"puppeteer.wait_for_selector\"''"

definition no_dimensions_message :: string where
  "no_dimensions_message =
     ''Could not find the dimensions of the element you're clicking on, this might be a bug?''"

text \<open>Lines 140 to 152 of \<^verbatim>\<open>move\<close>: the element of a selector.\<close>

definition find_element :: "'w env \<Rightarrow> selector \<Rightarrow> real option \<Rightarrow> (ElementHandle, 'w) action" where
  "find_element env sel wait =
     (case sel of
        Str name \<Rightarrow>
          bind (if truthy wait then await env (WaitForSelector name (the wait))
                                      (wait_for_selector env name (the wait))
                else return ()) (\<lambda>u.
          bind (await env (QuerySelector name) (query_selector env name)) (\<lambda>found.
            case found of
              None \<Rightarrow> raise (Exception (not_found_message name))
            | Some elem \<Rightarrow> return elem))
      | Handle elem \<Rightarrow> return elem)"

text \<open>Lines 139 to 160 of \<^verbatim>\<open>move\<close>: the flag is set, the element found and scrolled
  into view, and its box asked for.\<close>

definition resolve_box :: "'w env \<Rightarrow> selector \<Rightarrow> real option \<Rightarrow> (Box, 'w) action" where
  "resolve_box env sel wait =
     bind (modify (toggle_random_move False)) (\<lambda>u.
     bind (find_element env sel wait) (\<lambda>elem.
     bind (await env (ScrollIntoView elem) (scroll_into_view_if_needed env elem)) (\<lambda>u.
     bind (await env (BoundingBox elem) (bounding_box env elem)) (\<lambda>box.
       case box of
         None \<Rightarrow> raise (Exception no_dimensions_message)
       | Some b \<Rightarrow> return b))))"

text \<open>Lines 161 to 181 of \<^verbatim>\<open>move\<close>: the motion to a box.\<close>

definition move_to_box :: "'w env \<Rightarrow> Box \<Rightarrow> real option \<Rightarrow> (unit, 'w) action" where
  "move_to_box env box padding_percentage =
     bind (draw (get_random_box_point env box padding_percentage)) (\<lambda>destination.
     bind (get previous) (\<lambda>start.
       let overshooting = should_overshoot env start destination in
       bind (if overshooting then
               bind (get overshoot_radius) (\<lambda>radius. draw (overshoot env destination radius))
             else return destination) (\<lambda>to.
       bind (get previous) (\<lambda>start.
       bind (draw (path env start (ToVector to) None)) (\<lambda>vectors.
       bind (trace_path env vectors False) (\<lambda>u.
       bind (if overshooting then
               bind (get overshoot_spread) (\<lambda>spread.
               bind (draw (path env to
                             (ToBox \<lparr>box_x = vec_x destination, box_y = vec_y destination,
                                     box_width = box_width box, box_height = box_height box\<rparr>)
                             (Some spread))) (\<lambda>correction.
                 trace_path env correction False))
             else return ()) (\<lambda>u.
       bind (modify (\<lambda>s. s\<lparr>previous := destination\<rparr>)) (\<lambda>u.
         modify (toggle_random_move True)))))))))"

definition move :: "'w env \<Rightarrow> selector \<Rightarrow> real option \<Rightarrow> real option \<Rightarrow> (unit, 'w) action" where
  "move env sel padding_percentage wait =
     bind (resolve_box env sel wait) (\<lambda>box. move_to_box env box padding_percentage)"

text \<open>The \<^verbatim>\<open>try\<close> block of \<^verbatim>\<open>click\<close>. The argument of \<^verbatim>\<open>asyncio.sleep\<close> is
  \<^verbatim>\<open>wait_for_click / 1000\<close>, computed before the call: when the division raises, the
  sleep is not called, and neither is \<^verbatim>\<open>mouse.up\<close>.\<close>

definition press :: "'w env \<Rightarrow> Vector \<Rightarrow> number option \<Rightarrow> (unit, 'w) action" where
  "press env target_coords wait_for_click =
     bind (detect_mobile env) (\<lambda>mobile.
       if \<not> mobile then
         bind (await env MouseDown (mouse_down env)) (\<lambda>u.
         bind (case wait_for_click of
                 None \<Rightarrow> return ()
               | Some ms \<Rightarrow>
                   bind (compute (truediv env ms (PyInt 1000))) (\<lambda>seconds.
                     await env (Sleep seconds) (sleep env seconds))) (\<lambda>u.
           await env MouseUp (mouse_up env)))
       else await env (Tap target_coords) (touchscreen_tap env target_coords))"

text \<open>\<^verbatim>\<open>await asyncio.sleep(random.random() * 2)\<close>. The product of a \<^verbatim>\<open>float\<close>
  below 1 with 2 is exact, so it is the product of the reals.\<close>

definition random_sleep :: "'w env \<Rightarrow> (unit, 'w) action" where
  "random_sleep env =
     bind (draw (random env)) (\<lambda>r. await env (Sleep (r * 2)) (sleep env (r * 2)))"

text \<open>Lines 110 to 115 of \<^verbatim>\<open>click\<close>: the move to the selector, when there is one, and
  the coordinates a tap would go to.\<close>

definition click_target ::
  "'w env \<Rightarrow> selector option \<Rightarrow> real option \<Rightarrow> real option \<Rightarrow> (Vector, 'w) action"
where
  "click_target env sel padding_percentage wait =
     (case sel of
        None \<Rightarrow> get previous
      | Some target \<Rightarrow>
          bind (move env target padding_percentage wait) (\<lambda>u.
          bind (modify (toggle_random_move False)) (\<lambda>u.
            get previous)))"

definition click ::
  "'w env \<Rightarrow> selector option \<Rightarrow> real option \<Rightarrow> real option \<Rightarrow> number option \<Rightarrow> (unit, 'w) action"
where
  "click env sel padding_percentage wait wait_for_click =
     bind (modify (toggle_random_move False)) (\<lambda>u.
     bind (click_target env sel padding_percentage wait) (\<lambda>target_coords.
     bind (except_Exception (press env target_coords wait_for_click) (\<lambda>msg.
             modify (logger_debug
               (''Warning: could not click mouse/touch, error message: '' @ msg)))) (\<lambda>u.
     bind (random_sleep env) (\<lambda>u.
       modify (toggle_random_move True)))))"

text \<open>\<^verbatim>\<open>move_to\<close>: the destination is a dictionary; a missing key raises
  \<^verbatim>\<open>KeyError\<close> before anything else is done.\<close>

definition move_to :: "'w env \<Rightarrow> (string \<rightharpoonup> real) \<Rightarrow> (unit, 'w) action" where
  "move_to env destination =
     (case destination ''x'' of
        None \<Rightarrow> raise (Exception ''KeyError: x'')
      | Some a \<Rightarrow>
          (case destination ''y'' of
             None \<Rightarrow> raise (Exception ''KeyError: y'')
           | Some b \<Rightarrow>
               bind (modify (toggle_random_move False)) (\<lambda>u.
               bind (get previous) (\<lambda>start.
               bind (draw (path env start (ToVector (Vector a b)) None)) (\<lambda>vectors.
               bind (trace_path env vectors False) (\<lambda>u.
                 modify (toggle_random_move True)))))))"

text \<open>Lines 74 to 76 of \<^verbatim>\<open>random_move\<close>: a point of the window is sampled, the path
  to it traced, and the point recorded.\<close>

definition random_step :: "'w env \<Rightarrow> (unit, 'w) action" where
  "random_step env =
     bind (get_random_page_point env) (\<lambda>rand.
     bind (get previous) (\<lambda>start.
     bind (draw (path env start (ToVector rand) None)) (\<lambda>vectors.
     bind (trace_path env vectors True) (\<lambda>u.
       modify (\<lambda>s. s\<lparr>previous := rand\<rparr>)))))"

text \<open>The \<^verbatim>\<open>try\<close> block of \<^verbatim>\<open>random_move\<close>. \<^verbatim>\<open>ensure_future\<close> puts the next run of
  \<^verbatim>\<open>random_move\<close> on the event loop and returns; that run is a task of its own.\<close>

definition random_move_body :: "'w env \<Rightarrow> (unit, 'w) action" where
  "random_move_body env =
     bind (get moving) (\<lambda>busy.
     bind (if \<not> busy then random_step env else return ()) (\<lambda>u.
     bind (random_sleep env) (\<lambda>u.
       call EnsureFuture (ensure_future env))))"

definition random_move :: "'w env \<Rightarrow> (unit, 'w) action" where
  "random_move env =
     except_all (random_move_body env)
       (modify (logger_debug ''Warning: stopping random mouse movements''))"

subsection \<open>create\_cursor\<close>

text \<open>The argument \<^verbatim>\<open>start\<close>: a vector or a dictionary. \<^verbatim>\<open>Vector(**start)\<close> takes the
  keys \<^verbatim>\<open>x\<close> and \<^verbatim>\<open>y\<close> and raises \<^verbatim>\<open>TypeError\<close> on a missing or a surplus key.\<close>

datatype start_arg = StartVector Vector | StartDict "(string \<times> real) list"

definition Vector_of_dict :: "(string \<times> real) list \<Rightarrow> exn + Vector" where
  "Vector_of_dict d =
     (case (map_of d ''x'', map_of d ''y'') of
        (Some a, Some b) \<Rightarrow>
          if list_all (\<lambda>k. k = ''x'' \<or> k = ''y'') (map fst d) then Inr (Vector a b)
          else Inl (Exception ''TypeError'')
      | _ \<Rightarrow> Inl (Exception ''TypeError''))"

definition create_cursor :: "'w \<Rightarrow> start_arg option \<Rightarrow> exn + 'w GhostCursor" where
  "create_cursor pg start =
     (case (case start of None \<Rightarrow> StartVector origin | Some a \<Rightarrow> a) of
        StartDict d \<Rightarrow>
          (case Vector_of_dict d of
             Inl exc \<Rightarrow> Inl exc
           | Inr v \<Rightarrow> Inr (GhostCursor_init pg v))
      | StartVector v \<Rightarrow> Inr (GhostCursor_init pg v))"

subsection \<open>What a history shows\<close>

text \<open>The points whose \<^verbatim>\<open>mouse.move\<close> returned, and the points it was called with.\<close>

fun moved :: "event \<Rightarrow> Vector list" where
  "moved (Call (MouseMove v) True) = [v]"
| "moved e = []"

fun tried :: "event \<Rightarrow> Vector list" where
  "tried (Call (MouseMove v) ok) = [v]"
| "tried e = []"

definition dispatched :: "event list \<Rightarrow> Vector list" where
  "dispatched es = concat (map moved es)"

definition attempted :: "event list \<Rightarrow> Vector list" where
  "attempted es = concat (map tried es)"

text \<open>The queries of \<^verbatim>\<open>detect_mobile\<close> and the runs of \<^verbatim>\<open>random_move\<close> put on the
  event loop.\<close>

definition queries :: "event list \<Rightarrow> nat" where
  "queries es = length (filter (\<lambda>e. e = Call Evaluate True \<or> e = Call Evaluate False) es)"

definition scheduled :: "event list \<Rightarrow> nat" where
  "scheduled es = length (filter (\<lambda>e. e = Call EnsureFuture True) es)"

subsection \<open>Collaborators to run the controller against\<close>

text \<open>A page on which every call returns. The world is the number of \<^verbatim>\<open>mouse.move\<close>
  calls made so far. The page has one element, \<^verbatim>\<open>#button\<close>, with the box
  \<open>(1000, 1000, 8, 8)\<close>; a point is drawn at three quarters of a box's width and height,
  the overshoot is to the right of the destination, a path is its two end points, and a
  motion overshoots when it is more than 500 wide. The division is the exact one, which is
  Python's on the numbers used below, and raises when the quotient of two \<^verbatim>\<open>int\<close>s is
  beyond the range of a \<^verbatim>\<open>float\<close>.\<close>

definition number_value :: "number \<Rightarrow> real" where
  "number_value a = (case a of PyInt n \<Rightarrow> real_of_int n | PyFloat x \<Rightarrow> x)"

definition is_int :: "number \<Rightarrow> bool" where
  "is_int a = (case a of PyInt n \<Rightarrow> True | PyFloat x \<Rightarrow> False)"

definition demo_truediv :: "number \<Rightarrow> number \<Rightarrow> exn + real" where
  "demo_truediv a b =
     (if number_value b = 0 then Inl (Exception ''division by zero'')
      else if is_int a \<and> is_int b \<and> 2 ^ 1024 \<le> \<bar>number_value a / number_value b\<bar>
      then Inl (Exception ''integer division result too large for a float'')
      else Inr (number_value a / number_value b))"

definition demo_box :: Box where
  "demo_box = \<lparr>box_x = 1000, box_y = 1000, box_width = 8, box_height = 8\<rparr>"

definition demo_point :: "Box \<Rightarrow> Vector" where
  "demo_point b = Vector (box_x b + box_width b * 3 / 4) (box_y b + box_height b * 3 / 4)"

definition demo_env :: "nat env" where
  "demo_env =
     \<lparr>mouse_move = (\<lambda>v w. (Inr (), Suc w)),
      mouse_down = (\<lambda>w. (Inr (), w)),
      mouse_up = (\<lambda>w. (Inr (), w)),
      touchscreen_tap = (\<lambda>v w. (Inr (), w)),
      browser_is_connected = (\<lambda>w. (Inr True, w)),
      evaluate = (\<lambda>w. (Inr False, w)),
      wait_for_selector = (\<lambda>name t w. (Inr (), w)),
      query_selector =
        (\<lambda>name w. (Inr (if name = ''#button'' then Some (ElementHandle 1) else None), w)),
      scroll_into_view_if_needed = (\<lambda>elem w. (Inr (), w)),
      bounding_box =
        (\<lambda>elem w. (Inr (if elem = ElementHandle 1 then Some demo_box else None), w)),
      target_id = (\<lambda>w. (Inr ''page'', w)),
      new_cdp_session = (\<lambda>w. (Inr (CDPSession 0), w)),
      get_window_for_target = (\<lambda>c tid w. (Inr (800, 600), w)),
      sleep = (\<lambda>d w. (Inr (), w)),
      ensure_future = (\<lambda>w. (Inr (), w)),
      random = (\<lambda>w. (1 / 2, w)),
      get_random_box_point = (\<lambda>b padding w. (demo_point b, w)),
      overshoot = (\<lambda>p r w. (Vector (vec_x p + r) (vec_y p), w)),
      path =
        (\<lambda>start tgt spread w.
           (case tgt of ToVector p \<Rightarrow> [start, p] | ToBox b \<Rightarrow> [start, demo_point b], w)),
      should_overshoot = (\<lambda>a b. 500 < \<bar>vec_x a - vec_x b\<bar>),
      other_tasks = (\<lambda>w. None),
      truediv = demo_truediv\<rparr>"

text \<open>The same page with a mouse whose first move raises, with a mouse whose every move
  raises, with a query for touch capability that raises, with a touch screen, with a
  disconnected browser, and with a task that sets \<^verbatim>\<open>moving\<close> during the second move.\<close>

definition first_move_fails :: "nat env" where
  "first_move_fails =
     demo_env\<lparr>mouse_move :=
       (\<lambda>v w. (if w = 0 then Inl (Exception ''Target closed'') else Inr (), Suc w))\<rparr>"

definition every_move_fails :: "nat env" where
  "every_move_fails =
     demo_env\<lparr>mouse_move := (\<lambda>v w. (Inl (Exception ''Target closed''), Suc w))\<rparr>"

definition query_fails :: "nat env" where
  "query_fails =
     demo_env\<lparr>evaluate := (\<lambda>w. (Inl (Exception ''Execution context was destroyed''), w))\<rparr>"


definition disconnected_env :: "nat env" where
  "disconnected_env =
     every_move_fails\<lparr>browser_is_connected := (\<lambda>w. (Inr False, w))\<rparr>"

definition interrupted_env :: "nat env" where
  "interrupted_env = demo_env\<lparr>other_tasks := (\<lambda>w. if w = 2 then Some True else None)\<rparr>"

text \<open>A page whose target id cannot be read, and a mouse whose moves are cancelled.\<close>

definition no_target_env :: "nat env" where
  "no_target_env = demo_env\<lparr>target_id := (\<lambda>w. (Inl (Exception ''AttributeError''), w))\<rparr>"

definition cancelled_env :: "nat env" where
  "cancelled_env =
     demo_env\<lparr>mouse_move := (\<lambda>v w. (Inl (BaseException ''CancelledError''), Suc w))\<rparr>"

text \<open>A mouse whose third move is cancelled.\<close>

definition third_move_cancelled :: "nat env" where
  "third_move_cancelled =
     demo_env\<lparr>mouse_move :=
       (\<lambda>v w. (if w = 2 then Inl (BaseException ''CancelledError'') else Inr (), Suc w))\<rparr>"

text \<open>A page whose elements have no bounding box, and one on which only the element of
  \<^verbatim>\<open>#button\<close> has none.\<close>

definition no_box_env :: "nat env" where
  "no_box_env = demo_env\<lparr>bounding_box := (\<lambda>elem w. (Inr None, w))\<rparr>"

definition hidden_button_env :: "nat env" where
  "hidden_button_env =
     demo_env\<lparr>bounding_box :=
       (\<lambda>elem w. (Inr (if elem = ElementHandle 1 then None else Some demo_box), w))\<rparr>"




definition demo_cursor :: "nat GhostCursor" where
  "demo_cursor = GhostCursor_init 0 origin"

subsection \<open>Properties of the collaborators\<close>

text \<open>A mouse that fails only with what \<^verbatim>\<open>except Exception\<close> catches, and after whose
  failures \<^verbatim>\<open>is_connected\<close> returns: every move returns, or raises an
  \<^verbatim>\<open>Exception\<close> after which \<^verbatim>\<open>is_connected\<close> returns.\<close>

definition transient :: "'w env \<Rightarrow> bool" where
  "transient env =
     (\<forall>v w. case mouse_move env v w of
              (Inr u, w') \<Rightarrow> True
            | (Inl (Exception msg), w') \<Rightarrow> is_ok (fst (browser_is_connected env w'))
            | (Inl (BaseException msg), w') \<Rightarrow> False)"

text \<open>A mouse whose failures end a trace without an error: every move returns, or raises
  an \<^verbatim>\<open>Exception\<close> after which \<^verbatim>\<open>is_connected\<close> returns false.\<close>

definition gives_up :: "'w env \<Rightarrow> bool" where
  "gives_up env =
     (\<forall>v w. case mouse_move env v w of
              (Inr u, w') \<Rightarrow> True
            | (Inl (Exception msg), w') \<Rightarrow> fst (browser_is_connected env w') = Inr False
            | (Inl (BaseException msg), w') \<Rightarrow> False)"

text \<open>A mouse whose failures do not end a trace: every move returns, or raises an
  \<^verbatim>\<open>Exception\<close> after which \<^verbatim>\<open>is_connected\<close> returns true.\<close>

definition goes_on :: "'w env \<Rightarrow> bool" where
  "goes_on env =
     (\<forall>v w. case mouse_move env v w of
              (Inr u, w') \<Rightarrow> True
            | (Inl (Exception msg), w') \<Rightarrow> fst (browser_is_connected env w') = Inr True
            | (Inl (BaseException msg), w') \<Rightarrow> False)"

text \<open>No other task touches the flag \<^verbatim>\<open>moving\<close>.\<close>

definition quiet :: "'w env \<Rightarrow> bool" where
  "quiet env = (\<forall>w. other_tasks env w = None)"

subsection \<open>Relations between the state before and after a computation\<close>

text \<open>Every run of a computation relates the state it starts in to the state it ends in,
  whether it returns or raises.\<close>

definition keeps :: "('w GhostCursor \<Rightarrow> 'w GhostCursor \<Rightarrow> bool) \<Rightarrow> ('a, 'w) action \<Rightarrow> bool" where
  "keeps R m = (\<forall>s. R s (snd (m s)))"

text \<open>No event of a kind was added to the history.\<close>

definition silent :: "(event \<Rightarrow> bool) \<Rightarrow> 'w GhostCursor \<Rightarrow> 'w GhostCursor \<Rightarrow> bool" where
  "silent P s s' = (filter P (history s') = filter P (history s))"

text \<open>A flag that was set is still set.\<close>

definition still_busy :: "'w GhostCursor \<Rightarrow> 'w GhostCursor \<Rightarrow> bool" where
  "still_busy s s' = (moving s \<longrightarrow> moving s')"

text \<open>A touch capability that was determined is unchanged, and was not asked for again.\<close>

definition settled :: "'w GhostCursor \<Rightarrow> 'w GhostCursor \<Rightarrow> bool" where
  "settled s s' =
     (case is_mobile s of
        None \<Rightarrow> True
      | Some b \<Rightarrow> is_mobile s' = Some b \<and> queries (history s') = queries (history s))"

text \<open>The queries for touch capability that returned; a controller on which at most one
  did, and none when the capability is not yet known.\<close>

definition answered :: "event list \<Rightarrow> nat" where
  "answered es = length (filter (\<lambda>e. e = Call Evaluate True) es)"

definition determined :: "'w GhostCursor \<Rightarrow> bool" where
  "determined s =
     (case is_mobile s of
        None \<Rightarrow> answered (history s) = 0
      | Some b \<Rightarrow> answered (history s) = 1)"

text \<open>Neither the capability nor the queries for it were touched.\<close>

definition untouched :: "'w GhostCursor \<Rightarrow> 'w GhostCursor \<Rightarrow> bool" where
  "untouched s s' =
     (is_mobile s' = is_mobile s \<and> queries (history s') = queries (history s)
      \<and> answered (history s') = answered (history s))"

definition lifetime :: "'w GhostCursor \<Rightarrow> 'w GhostCursor \<Rightarrow> bool" where
  "lifetime s s' = (settled s s' \<and> (determined s \<longrightarrow> determined s'))"

subsection \<open>Sequences of operations on one controller\<close>

datatype operation =
    DetectMobile
  | TracePath "Vector list" bool
  | ToggleRandomMove bool
  | Move selector "real option" "real option"
  | Click "selector option" "real option" "real option" "number option"
  | MoveTo "string \<rightharpoonup> real"
  | RandomMove

text \<open>The state an operation leaves, whether it returned or raised, and the state a
  sequence of operations leaves.\<close>

fun perform :: "'w env \<Rightarrow> operation \<Rightarrow> 'w GhostCursor \<Rightarrow> 'w GhostCursor" where
  "perform env DetectMobile s = snd (detect_mobile env s)"
| "perform env (TracePath vectors abort_on_move) s = snd (trace_path env vectors abort_on_move s)"
| "perform env (ToggleRandomMove rnd) s = toggle_random_move rnd s"
| "perform env (Move sel padding_percentage wait) s = snd (move env sel padding_percentage wait s)"
| "perform env (Click sel padding_percentage wait wait_for_click) s =
     snd (click env sel padding_percentage wait wait_for_click s)"
| "perform env (MoveTo destination) s = snd (move_to env destination s)"
| "perform env RandomMove s = snd (random_move env s)"

definition run :: "'w env \<Rightarrow> operation list \<Rightarrow> 'w GhostCursor \<Rightarrow> 'w GhostCursor" where
  "run env ops s = foldl (\<lambda>t op. perform env op t) s ops"

subsection \<open>The paths a move is to trace\<close>

text \<open>For a target box and the state in which the motion starts: the destination drawn in
  the box; the end of the first path, which is the overshoot point when
  \<^verbatim>\<open>should_overshoot\<close> holds of the current position and the destination, and the
  destination otherwise; the first path, from the current position to that end; and the
  correction path, drawn in the world \<open>w\<close> that the first trace leaves, from the overshoot
  point to the region of the target's width and height at the destination, with the spread
  \<^verbatim>\<open>overshoot_spread\<close>. There is no correction path when the motion does not overshoot.\<close>

definition move_destination :: "'w env \<Rightarrow> Box \<Rightarrow> real option \<Rightarrow> 'w GhostCursor \<Rightarrow> Vector" where
  "move_destination env box pad t = fst (get_random_box_point env box pad (page t))"

definition overshooting :: "'w env \<Rightarrow> Box \<Rightarrow> real option \<Rightarrow> 'w GhostCursor \<Rightarrow> bool" where
  "overshooting env box pad t =
     should_overshoot env (previous t) (move_destination env box pad t)"





subsection \<open>The recorded position and the flag\<close>

text \<open>The recorded position follows the dispatches: the points dispatched up to the first
  state are still there, and the position is the last point dispatched since, or what it
  was when there is none.\<close>

definition tracks :: "'w GhostCursor \<Rightarrow> 'w GhostCursor \<Rightarrow> bool" where
  "tracks s s' =
     (prefix (dispatched (history s)) (dispatched (history s'))
      \<and> previous s' =
          last (previous s # drop (length (dispatched (history s))) (dispatched (history s'))))"

text \<open>Neither the recorded position nor the points dispatched have changed.\<close>

definition same_position :: "'w GhostCursor \<Rightarrow> 'w GhostCursor \<Rightarrow> bool" where
  "same_position s s' =
     (previous s' = previous s \<and> dispatched (history s') = dispatched (history s))"

text \<open>Every run of a computation that raises relates the state it starts in to the state it
  ends in.\<close>

definition raising :: "('w GhostCursor \<Rightarrow> 'w GhostCursor \<Rightarrow> bool) \<Rightarrow> ('a, 'w) action \<Rightarrow> bool" where
  "raising R m = (\<forall>s e s'. m s = (Inl e, s') \<longrightarrow> R s s')"

text \<open>What an operation leaves when it returns, and when it raises: the flag cleared, the
  position set, the flag still set.\<close>

definition returns_idle :: "('a, 'w) action \<Rightarrow> bool" where
  "returns_idle m = (\<forall>s a s'. m s = (Inr a, s') \<longrightarrow> \<not> moving s')"

definition sets_previous :: "Vector \<Rightarrow> ('a, 'w) action \<Rightarrow> bool" where
  "sets_previous d m = (\<forall>s a s'. m s = (Inr a, s') \<longrightarrow> previous s' = d)"

definition raises_busy :: "('a, 'w) action \<Rightarrow> bool" where
  "raises_busy m = (\<forall>s e s'. moving s \<longrightarrow> m s = (Inl e, s') \<longrightarrow> moving s')"

section \<open>Proofs\<close>

subsection \<open>Calls and awaits\<close>

lemma is_ok_simps [simp]: "is_ok (Inr a)" "\<not> is_ok (Inl e)"
  by (simp_all add: is_ok_def)

lemma dispatched_append [simp]: "dispatched (es @ fs) = dispatched es @ dispatched fs"
  by (simp add: dispatched_def)

lemma attempted_append [simp]: "attempted (es @ fs) = attempted es @ attempted fs"
  by (simp add: attempted_def)

lemma dispatched_simps [simp]:
  "dispatched [] = []"
  "dispatched (e # es) = moved e @ dispatched es"
  by (simp_all add: dispatched_def)

lemma attempted_simps [simp]:
  "attempted [] = []"
  "attempted (e # es) = tried e @ attempted es"
  by (simp_all add: attempted_def)

lemma call_fields:
  assumes "call rq f s = (r, s')"
  shows "r = fst (f (page s))" and "page s' = snd (f (page s))"
    and "history s' = history s @ [Call rq (is_ok r)]"
    and "previous s' = previous s" and "moving s' = moving s"
    and "is_mobile s' = is_mobile s" and "cdp_session s' = cdp_session s"
    and "overshoot_spread s' = overshoot_spread s"
    and "overshoot_radius s' = overshoot_radius s"
  using assms by (auto simp: call_def split: prod.splits)

lemma await_fields:
  assumes "await env rq f s = (r, s')"
  shows "r = fst (f (page s))" and "page s' = snd (f (page s))"
    and "history s' = history s @ [Call rq (is_ok r)]"
    and "previous s' = previous s"
    and "is_mobile s' = is_mobile s" and "cdp_session s' = cdp_session s"
    and "overshoot_spread s' = overshoot_spread s"
    and "overshoot_radius s' = overshoot_radius s"
  using assms by (auto simp: await_def call_def split: prod.splits option.splits)

lemma await_moving:
  assumes "await env rq f s = (r, s')"
  shows "moving s' = (case other_tasks env (page s') of None \<Rightarrow> moving s | Some b \<Rightarrow> b)"
  using assms by (auto simp: await_def call_def split: prod.splits option.splits)

lemma draw_fields:
  assumes "draw f s = (r, s')"
  shows "r = Inr (fst (f (page s)))" and "page s' = snd (f (page s))"
    and "history s' = history s"
    and "previous s' = previous s" and "moving s' = moving s"
    and "is_mobile s' = is_mobile s" and "cdp_session s' = cdp_session s"
    and "overshoot_spread s' = overshoot_spread s"
    and "overshoot_radius s' = overshoot_radius s"
  using assms by (auto simp: draw_def split: prod.splits)

lemma bind_returns:
  assumes "bind m k s = (Inr b, s')"
  obtains a t where "m s = (Inr a, t)" and "k a t = (Inr b, s')"
  using assms by (auto simp: bind_def split: prod.splits sum.splits)

lemma bind_raises:
  assumes "bind m k s = (Inl e, s')"
  obtains "m s = (Inl e, s')" | a t where "m s = (Inr a, t)" and "k a t = (Inl e, s')"
  using assms by (auto simp: bind_def split: prod.splits sum.splits)

lemma bind_eq: "m s = (Inr a, t) \<Longrightarrow> bind m k s = k a t"
  by (simp add: bind_def)

lemma bind_eq_raise: "m s = (Inl e, t) \<Longrightarrow> bind m k s = (Inl e, t)"
  by (simp add: bind_def)

subsection \<open>One turn of the loop\<close>

lemma trace_step_cases:
  assumes "trace_step env v ab s = (r, s')"
  obtains
    (aborted) "ab" "moving s" "r = Inr Return" "s' = s"
  | (moved) "\<not> (ab \<and> moving s)" "r = Inr Continue"
      "history s' = history s @ [Call (MouseMove v) True]" "previous s' = v"
      "fst (mouse_move env v (page s)) = Inr ()"
  | (escaped) msg where "\<not> (ab \<and> moving s)" "r = Inl (BaseException msg)"
      "history s' = history s @ [Call (MouseMove v) False]" "previous s' = previous s"
      "fst (mouse_move env v (page s)) = Inl (BaseException msg)"
  | (handler_raised) msg exc where "\<not> (ab \<and> moving s)" "r = Inl exc"
      "history s' = history s @ [Call (MouseMove v) False, Call IsConnected False]"
      "previous s' = previous s"
      "fst (mouse_move env v (page s)) = Inl (Exception msg)"
      "fst (browser_is_connected env (snd (mouse_move env v (page s)))) = Inl exc"
  | (disconnected) msg where "\<not> (ab \<and> moving s)" "r = Inr Return"
      "history s' = history s @ [Call (MouseMove v) False, Call IsConnected True]"
      "previous s' = previous s"
      "fst (mouse_move env v (page s)) = Inl (Exception msg)"
      "fst (browser_is_connected env (snd (mouse_move env v (page s)))) = Inr False"
  | (logged) msg where "\<not> (ab \<and> moving s)" "r = Inr Continue"
      "history s' = history s @ [Call (MouseMove v) False, Call IsConnected True,
         Log (''Warning: could not move mouse, error message: '' @ msg)]"
      "previous s' = previous s"
      "fst (mouse_move env v (page s)) = Inl (Exception msg)"
      "fst (browser_is_connected env (snd (mouse_move env v (page s)))) = Inr True"
proof (cases "ab \<and> moving s")
  case True
  with assms have "r = Inr Return" "s' = s" by (auto simp: trace_step_def)
  with True show ?thesis by (intro aborted) auto
next
  case nab: False
  obtain r1 s1 where a1: "await env (MouseMove v) (mouse_move env v) s = (r1, s1)"
    by (cases "await env (MouseMove v) (mouse_move env v) s")
  note f1 = await_fields(3,4) [OF a1]
  from await_fields(1,2) [OF a1]
  have g1: "fst (mouse_move env v (page s)) = r1" "page s1 = snd (mouse_move env v (page s))"
    by simp_all
  show ?thesis
  proof (cases r1)
    case (Inr u)
    with assms nab a1 have "r = Inr Continue" "s' = s1\<lparr>previous := v\<rparr>"
      by (auto simp: trace_step_def)
    with nab f1 g1 Inr show ?thesis by (intro moved) auto
  next
    case (Inl e)
    show ?thesis
    proof (cases e)
      case (BaseException msg)
      with assms nab a1 Inl have "r = Inl (BaseException msg)" "s' = s1"
        by (auto simp: trace_step_def)
      with nab f1 g1 Inl BaseException show ?thesis by (intro escaped [of msg]) auto
    next
      case (Exception msg)
      obtain r2 s2 where a2: "await env IsConnected (browser_is_connected env) s1 = (r2, s2)"
        by (cases "await env IsConnected (browser_is_connected env) s1")
      note f2 = await_fields(3,4) [OF a2]
      from await_fields(1) [OF a2] g1(2)
      have g2: "fst (browser_is_connected env (snd (mouse_move env v (page s)))) = r2"
        by simp
      from g1(1) Inl Exception
      have g3: "fst (mouse_move env v (page s)) = Inl (Exception msg)" by simp
      show ?thesis
      proof (cases r2)
        case e2: (Inl exc)
        with assms nab a1 a2 Inl Exception have "r = Inl exc" "s' = s2"
          by (auto simp: trace_step_def)
        with nab f1 f2 g2 g3 Inl e2 show ?thesis by (intro handler_raised [of exc msg]) auto
      next
        case c: (Inr still)
        show ?thesis
        proof (cases still)
          case False
          with assms nab a1 a2 Inl Exception c have "r = Inr Return" "s' = s2"
            by (auto simp: trace_step_def)
          with nab f1 f2 g2 g3 Inl c False show ?thesis by (intro disconnected [of msg]) auto
        next
          case True
          with assms nab a1 a2 Inl Exception c have "r = Inr Continue"
            "s' = logger_debug (''Warning: could not move mouse, error message: '' @ msg) s2"
            by (auto simp: trace_step_def)
          with nab f1 f2 g2 g3 Inl c True show ?thesis
            by (intro logged [of msg]) (auto simp: logger_debug_def)
        qed
      qed
    qed
  qed
qed

lemma trace_step_frame:
  assumes "trace_step env v ab s = (r, s')"
  shows "is_mobile s' = is_mobile s" and "cdp_session s' = cdp_session s"
    and "overshoot_spread s' = overshoot_spread s"
    and "overshoot_radius s' = overshoot_radius s"
  using assms
  by (auto simp: trace_step_def await_def call_def logger_debug_def
      split: if_splits prod.splits sum.splits exn.splits option.splits)

lemma trace_path_Cons:
  "trace_step env v ab s = (Inr Continue, t) \<Longrightarrow>
     trace_path env (v # vs) ab s = trace_path env vs ab t"
  "trace_step env v ab s = (Inr Return, t) \<Longrightarrow> trace_path env (v # vs) ab s = (Inr (), t)"
  "trace_step env v ab s = (Inl e, t) \<Longrightarrow> trace_path env (v # vs) ab s = (Inl e, t)"
  by simp_all

lemma trace_path_step:
  assumes "trace_path env (v # vs) ab s = (r, s')"
  obtains t where "trace_step env v ab s = (Inr Continue, t)" "trace_path env vs ab t = (r, s')"
  | "trace_step env v ab s = (Inr Return, s')" "r = Inr ()"
  | e where "trace_step env v ab s = (Inl e, s')" "r = Inl e"
  using assms by (auto split: prod.splits sum.splits flow.splits)


lemma trace_step_previous:
  assumes "trace_step env v ab s = (r, s')"
  shows "\<exists>ds. dispatched (history s') = dispatched (history s) @ ds
           \<and> previous s' = last (previous s # ds) \<and> (ds = [] \<or> ds = [v])"
  using assms
proof (cases rule: trace_step_cases)
  case aborted
  then show ?thesis by (intro exI [of _ "[]"]) simp
next
  case moved
  then show ?thesis by (intro exI [of _ "[v]"]) simp
next
  case (escaped msg)
  then show ?thesis by (intro exI [of _ "[]"]) simp
next
  case (handler_raised msg exc)
  then show ?thesis by (intro exI [of _ "[]"]) simp
next
  case (disconnected msg)
  then show ?thesis by (intro exI [of _ "[]"]) simp
next
  case (logged msg)
  then show ?thesis by (intro exI [of _ "[]"]) simp
qed

lemma trace_path_previous:
  assumes "trace_path env vs ab s = (r, s')"
  shows "\<exists>ds. dispatched (history s') = dispatched (history s) @ ds
           \<and> previous s' = last (previous s # ds) \<and> subseq ds vs"
  using assms
proof (induction vs arbitrary: s)
  case Nil
  then show ?case by (intro exI [of _ "[]"]) simp
next
  case (Cons v vs)
  have step: "\<exists>ds. dispatched (history t) = dispatched (history s) @ ds
           \<and> previous t = last (previous s # ds) \<and> subseq ds (v # vs)"
    if "trace_step env v ab s = (q, t)" for q t
  proof -
    from trace_step_previous [OF that] obtain ds where ds:
      "dispatched (history t) = dispatched (history s) @ ds"
      "previous t = last (previous s # ds)" "ds = [] \<or> ds = [v]" by blast
    from ds(3) have "subseq ds (v # vs)" by auto
    with ds(1,2) show ?thesis by blast
  qed
  from Cons.prems show ?case
  proof (cases rule: trace_path_step)
    case (1 t)
    from trace_step_previous [OF 1(1)] obtain d1 where d1:
      "dispatched (history t) = dispatched (history s) @ d1"
      "previous t = last (previous s # d1)" "d1 = [] \<or> d1 = [v]" by blast
    from Cons.IH [OF 1(2)] obtain d2 where d2:
      "dispatched (history s') = dispatched (history t) @ d2"
      "previous s' = last (previous t # d2)" "subseq d2 vs" by blast
    from d1(3) d2(3) have sub: "subseq (d1 @ d2) (v # vs)" by auto
    from d1(1) d2(1) have h: "dispatched (history s') = dispatched (history s) @ d1 @ d2"
      by simp
    from d1(2) d2(2) have p: "previous s' = last (previous s # d1 @ d2)"
      by (cases d2) (simp_all add: last_append)
    from h p sub show ?thesis by blast
  next
    case 2
    from step [OF 2(1)] show ?thesis .
  next
    case (3 e)
    from step [OF 3(1)] show ?thesis .
  qed
qed

lemma loop_head_Cons:
  assumes "loop_head env (v # vs) ab s = Some t"
  obtains u where "trace_step env v ab s = (Inr Continue, u)" "loop_head env vs ab u = Some t"
  using assms by (auto split: prod.splits sum.splits flow.splits)

lemma loop_head_append:
  "loop_head env pre ab s = Some t \<Longrightarrow> trace_path env (pre @ rest) ab s = trace_path env rest ab t"
proof (induction pre arbitrary: s)
  case Nil
  then show ?case by simp
next
  case (Cons v pre)
  from Cons.prems obtain u where u: "trace_step env v ab s = (Inr Continue, u)"
    "loop_head env pre ab u = Some t" by (rule loop_head_Cons)
  from Cons.IH [OF u(2)] u(1) show ?case by simp
qed

lemma trace_step_Continue_attempted:
  assumes "trace_step env v ab s = (Inr Continue, t)"
  shows "attempted (history t) = attempted (history s) @ [v]"
  using assms by (cases rule: trace_step_cases) auto

lemma loop_head_attempted:
  "loop_head env pre ab s = Some t \<Longrightarrow> attempted (history t) = attempted (history s) @ pre"
proof (induction pre arbitrary: s)
  case Nil
  then show ?case by simp
next
  case (Cons v pre)
  from Cons.prems obtain u where u: "trace_step env v ab s = (Inr Continue, u)"
    "loop_head env pre ab u = Some t" by (rule loop_head_Cons)
  from Cons.IH [OF u(2)] trace_step_Continue_attempted [OF u(1)] show ?case by simp
qed

lemma loop_head_trace_path:
  "loop_head env pre ab s = Some t \<Longrightarrow> trace_path env pre ab s = (Inr (), t)"
  using loop_head_append [of env pre ab s t "[]"] by simp

subsection \<open>Failing dispatches\<close>

lemma transient_cases:
  assumes "transient env"
  shows "fst (mouse_move env v w) \<noteq> Inl (BaseException msg)"
    and "fst (mouse_move env v w) = Inl (Exception msg) \<Longrightarrow>
           fst (browser_is_connected env (snd (mouse_move env v w))) \<noteq> Inl exc"
proof -
  from assms have g: "case mouse_move env v w of
              (Inr u, w') \<Rightarrow> True
            | (Inl (Exception msg), w') \<Rightarrow> is_ok (fst (browser_is_connected env w'))
            | (Inl (BaseException msg), w') \<Rightarrow> False"
    by (simp add: transient_def)
  obtain r w' where m: "mouse_move env v w = (r, w')" by (cases "mouse_move env v w")
  from g m show "fst (mouse_move env v w) \<noteq> Inl (BaseException msg)"
    by (auto split: sum.splits exn.splits)
  from g m show "fst (browser_is_connected env (snd (mouse_move env v w))) \<noteq> Inl exc"
    if "fst (mouse_move env v w) = Inl (Exception msg)"
    using that by (auto split: sum.splits exn.splits)
qed

lemma gives_up_cases:
  assumes "gives_up env"
  shows "fst (mouse_move env v w) \<noteq> Inl (BaseException msg)"
    and "fst (mouse_move env v w) = Inl (Exception msg) \<Longrightarrow>
           fst (browser_is_connected env (snd (mouse_move env v w))) = Inr False"
proof -
  from assms have g: "case mouse_move env v w of
              (Inr u, w') \<Rightarrow> True
            | (Inl (Exception msg), w') \<Rightarrow> fst (browser_is_connected env w') = Inr False
            | (Inl (BaseException msg), w') \<Rightarrow> False"
    by (simp add: gives_up_def)
  obtain r w' where m: "mouse_move env v w = (r, w')" by (cases "mouse_move env v w")
  from g m show "fst (mouse_move env v w) \<noteq> Inl (BaseException msg)"
    by (auto split: sum.splits exn.splits)
  from g m show "fst (browser_is_connected env (snd (mouse_move env v w))) = Inr False"
    if "fst (mouse_move env v w) = Inl (Exception msg)"
    using that by (auto split: sum.splits exn.splits)
qed

lemma trace_step_transient:
  assumes "transient env"
  shows "is_ok (fst (trace_step env v ab s))"
proof -
  obtain r s' where rs: "trace_step env v ab s = (r, s')" by (cases "trace_step env v ab s")
  from rs have "is_ok r"
  proof (cases rule: trace_step_cases)
    case (escaped msg)
    with transient_cases(1) [OF assms] show ?thesis by blast
  next
    case (handler_raised msg exc)
    with transient_cases(2) [OF assms, of v "page s" msg exc] show ?thesis by simp
  qed simp_all
  with rs show ?thesis by simp
qed

lemma trace_path_transient:
  assumes "transient env"
  shows "fst (trace_path env vs ab s) = Inr ()"
proof (induction vs arbitrary: s)
  case Nil
  show ?case by simp
next
  case (Cons v vs)
  obtain r t where rt: "trace_step env v ab s = (r, t)" by (cases "trace_step env v ab s")
  from trace_step_transient [OF assms, of v ab s] rt obtain f where f: "r = Inr f"
    by (cases r) simp_all
  show ?case
  proof (cases f)
    case Continue
    with rt f Cons.IH [of t] show ?thesis by simp
  next
    case Return
    with rt f show ?thesis by simp
  qed
qed

lemma goes_on_cases:
  assumes "goes_on env"
  shows "fst (mouse_move env v w) \<noteq> Inl (BaseException msg)"
    and "fst (mouse_move env v w) = Inl (Exception msg) \<Longrightarrow>
           fst (browser_is_connected env (snd (mouse_move env v w))) = Inr True"
proof -
  from assms have g: "case mouse_move env v w of
              (Inr u, w') \<Rightarrow> True
            | (Inl (Exception msg), w') \<Rightarrow> fst (browser_is_connected env w') = Inr True
            | (Inl (BaseException msg), w') \<Rightarrow> False"
    by (simp add: goes_on_def)
  obtain r w' where m: "mouse_move env v w = (r, w')" by (cases "mouse_move env v w")
  from g m show "fst (mouse_move env v w) \<noteq> Inl (BaseException msg)"
    by (auto split: sum.splits exn.splits)
  from g m show "fst (browser_is_connected env (snd (mouse_move env v w))) = Inr True"
    if "fst (mouse_move env v w) = Inl (Exception msg)"
    using that by (auto split: sum.splits exn.splits)
qed

lemma trace_step_goes_on:
  assumes "goes_on env"
  shows "\<exists>t. trace_step env v False s = (Inr Continue, t)
              \<and> attempted (history t) = attempted (history s) @ [v]"
proof -
  obtain r t where rt: "trace_step env v False s = (r, t)" by (cases "trace_step env v False s")
  from rt have "r = Inr Continue"
  proof (cases rule: trace_step_cases)
    case (escaped msg)
    with goes_on_cases(1) [OF assms] show ?thesis by blast
  next
    case (handler_raised msg exc)
    with goes_on_cases(2) [OF assms, of v "page s" msg] show ?thesis by simp
  next
    case (disconnected msg)
    with goes_on_cases(2) [OF assms, of v "page s" msg] show ?thesis by simp
  qed simp_all
  with rt trace_step_Continue_attempted [of env v False s t] show ?thesis by simp
qed

lemma trace_path_goes_on:
  assumes "goes_on env"
  shows "fst (trace_path env vs False s) = Inr ()
         \<and> attempted (history (snd (trace_path env vs False s))) = attempted (history s) @ vs"
proof (induction vs arbitrary: s)
  case Nil
  show ?case by simp
next
  case (Cons v vs)
  from trace_step_goes_on [OF assms, of v s] obtain t where
    t: "trace_step env v False s = (Inr Continue, t)"
       "attempted (history t) = attempted (history s) @ [v]" by blast
  with Cons.IH [of t] show ?case by simp
qed

lemma trace_step_disconnected:
  assumes "gives_up env" and "trace_step env v ab s = (r, t)"
  shows "(r = Inr Continue \<and> dispatched (history t) = dispatched (history s) @ [v]
            \<and> attempted (history t) = attempted (history s) @ [v])
       \<or> (r = Inr Return \<and> dispatched (history t) = dispatched (history s)
            \<and> (attempted (history t) = attempted (history s)
                \<or> attempted (history t) = attempted (history s) @ [v]))"
  using assms(2)
proof (cases rule: trace_step_cases)
  case aborted
  then show ?thesis by simp
next
  case moved
  then show ?thesis by simp
next
  case (escaped msg)
  with gives_up_cases(1) [OF assms(1)] show ?thesis by blast
next
  case (handler_raised msg exc)
  with gives_up_cases(2) [OF assms(1), of v "page s" msg] show ?thesis by simp
next
  case (disconnected msg)
  then show ?thesis by simp
next
  case (logged msg)
  with gives_up_cases(2) [OF assms(1), of v "page s" msg] show ?thesis by simp
qed

lemma trace_path_disconnected:
  assumes "gives_up env"
  shows "\<exists>ds rest. dispatched (history (snd (trace_path env vs ab s))) = dispatched (history s) @ ds
           \<and> attempted (history (snd (trace_path env vs ab s))) = attempted (history s) @ ds @ rest
           \<and> length rest \<le> 1 \<and> prefix (ds @ rest) vs"
proof (induction vs arbitrary: s)
  case Nil
  show ?case by (intro exI [of _ "[]"]) simp
next
  case (Cons v vs)
  obtain r t where rt: "trace_step env v ab s = (r, t)" by (cases "trace_step env v ab s")
  from trace_step_disconnected [OF assms rt]
  consider (go) "r = Inr Continue" "dispatched (history t) = dispatched (history s) @ [v]"
      "attempted (history t) = attempted (history s) @ [v]"
    | (stop0) "r = Inr Return" "dispatched (history t) = dispatched (history s)"
      "attempted (history t) = attempted (history s)"
    | (stop1) "r = Inr Return" "dispatched (history t) = dispatched (history s)"
      "attempted (history t) = attempted (history s) @ [v]"
    by blast
  then show ?case
  proof cases
    case go
    from Cons.IH [of t] obtain ds rest where
      d: "dispatched (history (snd (trace_path env vs ab t))) = dispatched (history t) @ ds"
         "attempted (history (snd (trace_path env vs ab t))) = attempted (history t) @ ds @ rest"
         "length rest \<le> 1" "prefix (ds @ rest) vs" by blast
    from rt go(1) have eq: "trace_path env (v # vs) ab s = trace_path env vs ab t" by simp
    show ?thesis
      unfolding eq using d go(2,3)
      by (intro exI [of _ "v # ds"] exI [of _ rest]) simp
  next
    case stop0
    from rt stop0(1) have eq: "trace_path env (v # vs) ab s = (Inr (), t)" by simp
    show ?thesis
      unfolding eq using stop0(2,3) by (intro exI [of _ "[]"]) simp
  next
    case stop1
    from rt stop1(1) have eq: "trace_path env (v # vs) ab s = (Inr (), t)" by simp
    show ?thesis
      unfolding eq using stop1(2,3) by (intro exI [of _ "[]"] exI [of _ "[v]"]) simp
  qed
qed

subsection \<open>Computations that keep a relation\<close>

lemma keepsD: "keeps R m \<Longrightarrow> m s = (r, s') \<Longrightarrow> R s s'"
  by (auto simp: keeps_def dest: spec [of _ s])

lemma keeps_return: "reflp R \<Longrightarrow> keeps R (return a)"
  by (simp add: keeps_def return_def reflp_def)

lemma keeps_raise: "reflp R \<Longrightarrow> keeps R (raise e)"
  by (simp add: keeps_def raise_def reflp_def)

lemma keeps_get: "reflp R \<Longrightarrow> keeps R (get f)"
  by (simp add: keeps_def get_def reflp_def)

lemma keeps_compute: "reflp R \<Longrightarrow> keeps R (compute r)"
  by (simp add: keeps_def compute_def reflp_def)

lemma keeps_bind:
  assumes "transp R" and "keeps R m" and "\<And>a. keeps R (k a)"
  shows "keeps R (bind m k)"
  unfolding keeps_def
proof
  fix s
  obtain r t where mt: "m s = (r, t)" by (cases "m s")
  from keepsD [OF assms(2) mt] have 1: "R s t" .
  show "R s (snd (bind m k s))"
  proof (cases r)
    case (Inl e)
    with mt 1 show ?thesis by (simp add: bind_def)
  next
    case (Inr a)
    from assms(3) [of a] have "R t (snd (k a t))" by (simp add: keeps_def)
    with 1 assms(1) have "R s (snd (k a t))" by (blast dest: transpD)
    with mt Inr show ?thesis by (simp add: bind_def)
  qed
qed

lemma keeps_except_Exception:
  assumes "transp R" and "keeps R m" and "\<And>msg. keeps R (h msg)"
  shows "keeps R (except_Exception m h)"
  unfolding keeps_def
proof
  fix s
  obtain r t where mt: "m s = (r, t)" by (cases "m s")
  from keepsD [OF assms(2) mt] have 1: "R s t" .
  show "R s (snd (except_Exception m h s))"
  proof (cases r)
    case (Inr a)
    with mt 1 show ?thesis by (simp add: except_Exception_def)
  next
    case (Inl e)
    show ?thesis
    proof (cases e)
      case (BaseException msg)
      with mt 1 Inl show ?thesis by (simp add: except_Exception_def)
    next
      case (Exception msg)
      from assms(3) [of msg] have "R t (snd (h msg t))" by (simp add: keeps_def)
      with 1 assms(1) have "R s (snd (h msg t))" by (blast dest: transpD)
      with mt Inl Exception show ?thesis by (simp add: except_Exception_def)
    qed
  qed
qed

lemma keeps_except_all:
  assumes "transp R" and "keeps R m" and "keeps R h"
  shows "keeps R (except_all m h)"
  unfolding keeps_def
proof
  fix s
  obtain r t where mt: "m s = (r, t)" by (cases "m s")
  from keepsD [OF assms(2) mt] have 1: "R s t" .
  show "R s (snd (except_all m h s))"
  proof (cases r)
    case (Inr a)
    with mt 1 show ?thesis by (simp add: except_all_def)
  next
    case (Inl e)
    from assms(3) have "R t (snd (h t))" by (simp add: keeps_def)
    with 1 assms(1) have "R s (snd (h t))" by (blast dest: transpD)
    with mt Inl show ?thesis by (simp add: except_all_def)
  qed
qed

lemma keeps_if: "keeps R m \<Longrightarrow> keeps R n \<Longrightarrow> keeps R (if b then m else n)"
  by simp

lemma keeps_option:
  "keeps R m \<Longrightarrow> (\<And>x. keeps R (k x)) \<Longrightarrow> keeps R (case opt of None \<Rightarrow> m | Some x \<Rightarrow> k x)"
  by (cases opt) simp_all

lemma keeps_selector:
  "(\<And>x. keeps R (m x)) \<Longrightarrow> (\<And>x. keeps R (k x)) \<Longrightarrow>
     keeps R (case sel of Str x \<Rightarrow> m x | Handle x \<Rightarrow> k x)"
  by (cases sel) simp_all

lemma keeps_trace_path:
  assumes "reflp R" and "transp R" and "\<And>v. keeps R (trace_step env v ab)"
  shows "keeps R (trace_path env vs ab)"
  unfolding keeps_def
proof
  fix s
  show "R s (snd (trace_path env vs ab s))"
  proof (induction vs arbitrary: s)
    case Nil
    from assms(1) show ?case by (simp add: reflp_def)
  next
    case (Cons v vs)
    obtain r t where rt: "trace_step env v ab s = (r, t)" by (cases "trace_step env v ab s")
    from keepsD [OF assms(3) rt] have 1: "R s t" .
    show ?case
    proof (cases r)
      case (Inl e)
      with rt 1 show ?thesis by simp
    next
      case (Inr f)
      show ?thesis
      proof (cases f)
        case Return
        with rt 1 Inr show ?thesis by simp
      next
        case Continue
        with rt Inr have "trace_path env (v # vs) ab s = trace_path env vs ab t" by simp
        with Cons [of t] 1 assms(2) show ?thesis by (auto dest: transpD)
      qed
    qed
  qed
qed

lemma silent_reflp: "reflp (silent P)"
  by (simp add: reflp_def silent_def)

lemma silent_transp: "transp (silent P)"
  by (simp add: transp_def silent_def)

lemma silent_modify: "(\<And>s. filter P (history (f s)) = filter P (history s)) \<Longrightarrow> keeps (silent P) (modify f)"
  by (simp add: keeps_def silent_def modify_def)

lemma silent_draw: "keeps (silent P) (draw f)"
  by (simp add: keeps_def silent_def draw_def split: prod.splits)

lemma silent_call: "(\<And>ok. \<not> P (Call rq ok)) \<Longrightarrow> keeps (silent P) (call rq f)"
  by (auto simp: keeps_def silent_def call_def split: prod.splits)

lemma silent_await: "(\<And>ok. \<not> P (Call rq ok)) \<Longrightarrow> keeps (silent P) (await env rq f)"
  by (auto simp: keeps_def silent_def await_def call_def split: prod.splits option.splits)

lemma silent_trace_step:
  assumes "\<And>v ok. \<not> P (Call (MouseMove v) ok)" and "\<And>ok. \<not> P (Call IsConnected ok)"
    and "\<And>msg. \<not> P (Log msg)"
  shows "keeps (silent P) (trace_step env v ab)"
  unfolding keeps_def
proof
  fix s
  obtain r t where rt: "trace_step env v ab s = (r, t)" by (cases "trace_step env v ab s")
  from rt have "filter P (history t) = filter P (history s)"
    by (cases rule: trace_step_cases) (simp_all add: assms)
  with rt show "silent P s (snd (trace_step env v ab s))" by (simp add: silent_def)
qed

lemma silent_toggle: "keeps (silent P) (modify (toggle_random_move b))"
  by (rule silent_modify) (simp add: toggle_random_move_def)

lemma silent_set_previous: "keeps (silent P) (modify (\<lambda>s. s\<lparr>previous := v\<rparr>))"
  by (rule silent_modify) simp

lemma silent_set_is_mobile: "keeps (silent P) (modify (\<lambda>s. s\<lparr>is_mobile := v\<rparr>))"
  by (rule silent_modify) simp

lemma silent_set_cdp_session: "keeps (silent P) (modify (\<lambda>s. s\<lparr>cdp_session := v\<rparr>))"
  by (rule silent_modify) simp

lemma silent_logger: "\<not> P (Log msg) \<Longrightarrow> keeps (silent P) (modify (logger_debug msg))"
  by (rule silent_modify) (simp add: logger_debug_def)

lemmas silent_intros = keeps_bind [OF silent_transp] keeps_except_Exception [OF silent_transp]
  keeps_except_all [OF silent_transp] keeps_return [OF silent_reflp] keeps_raise [OF silent_reflp]
  keeps_get [OF silent_reflp] keeps_compute [OF silent_reflp] keeps_if keeps_option
  keeps_selector silent_draw
  keeps_trace_path [OF silent_reflp silent_transp] silent_toggle silent_set_previous
  silent_set_is_mobile silent_set_cdp_session silent_trace_step silent_await silent_call
  silent_logger

lemma bind_cases:
  assumes "bind m k s = (r, s')"
  obtains (first) e where "m s = (Inl e, s')" "r = Inl e"
  | (second) a t where "m s = (Inr a, t)" "k a t = (r, s')"
  using assms by (auto simp: bind_def split: prod.splits sum.splits)

lemma silentD: "silent P s s' \<Longrightarrow> filter P (history s') = filter P (history s)"
  by (simp add: silent_def)

lemma scheduled_filter: "scheduled es = length (filter (\<lambda>e. e = Call EnsureFuture True) es)"
  by (simp add: scheduled_def)

lemma attempted_filter: "attempted (filter (\<lambda>e. tried e \<noteq> []) es) = attempted es"
  by (induction es) auto

lemma silent_attempted:
  "silent (\<lambda>e. tried e \<noteq> []) s s' \<Longrightarrow> attempted (history s') = attempted (history s)"
  by (metis attempted_filter silent_def)

subsection \<open>What the parts of the operations leave out of the history\<close>

lemma silent_find_element:
  assumes "\<And>name t ok. \<not> P (Call (WaitForSelector name t) ok)"
    and "\<And>name ok. \<not> P (Call (QuerySelector name) ok)"
  shows "keeps (silent P) (find_element env sel wait)"
  unfolding find_element_def by (intro silent_intros assms)

lemma silent_resolve_box:
  assumes "\<And>name t ok. \<not> P (Call (WaitForSelector name t) ok)"
    and "\<And>name ok. \<not> P (Call (QuerySelector name) ok)"
    and "\<And>elem ok. \<not> P (Call (ScrollIntoView elem) ok)"
    and "\<And>elem ok. \<not> P (Call (BoundingBox elem) ok)"
  shows "keeps (silent P) (resolve_box env sel wait)"
  unfolding resolve_box_def by (intro silent_intros silent_find_element assms)

lemma silent_move_to_box:
  assumes "\<And>v ok. \<not> P (Call (MouseMove v) ok)" and "\<And>ok. \<not> P (Call IsConnected ok)"
    and "\<And>msg. \<not> P (Log msg)"
  shows "keeps (silent P) (move_to_box env box pad)"
  unfolding move_to_box_def Let_def by (intro silent_intros assms)

lemma silent_get_cdp_session:
  assumes "\<And>ok. \<not> P (Call NewCdpSession ok)"
  shows "keeps (silent P) (get_cdp_session env)"
  unfolding get_cdp_session_def by (intro silent_intros assms)

lemma silent_get_random_page_point:
  assumes "\<And>ok. \<not> P (Call NewCdpSession ok)" and "\<And>ok. \<not> P (Call TargetId ok)"
    and "\<And>ok. \<not> P (Call GetWindowForTarget ok)"
  shows "keeps (silent P) (get_random_page_point env)"
  unfolding get_random_page_point_def by (intro silent_intros silent_get_cdp_session assms)

lemma silent_random_sleep:
  assumes "\<And>d ok. \<not> P (Call (Sleep d) ok)"
  shows "keeps (silent P) (random_sleep env)"
  unfolding random_sleep_def by (intro silent_intros assms)

text \<open>\<open>random_move_body\<close> up to its last call.\<close>

lemma random_move_body_split:
  assumes "random_move_body env s = (r, s')"
  obtains (before) e where "r = Inl e" "scheduled (history s') = scheduled (history s)"
  | (at_call) t where "scheduled (history t) = scheduled (history s)"
      "call EnsureFuture (ensure_future env) t = (r, s')"
proof -
  let ?P = "\<lambda>e. e = Call EnsureFuture True"
  have sil: "silent ?P a b \<Longrightarrow> scheduled (history b) = scheduled (history a)" for a b :: "'a GhostCursor"
    by (simp add: silent_def scheduled_def)
  let ?trace = "\<lambda>busy. if \<not> busy then random_step env else return ()"
  have k1: "keeps (silent ?P) (?trace busy)" for busy
    unfolding random_step_def by (intro silent_intros silent_get_random_page_point) simp_all
  have k2: "keeps (silent ?P) (random_sleep env)"
    by (intro silent_random_sleep) simp
  from assms have "bind (?trace (moving s)) (\<lambda>u. bind (random_sleep env) (\<lambda>u.
       call EnsureFuture (ensure_future env))) s = (r, s')"
    by (simp add: random_move_body_def bind_def get_def)
  then show ?thesis
  proof (cases rule: bind_cases)
    case (first e)
    from keepsD [OF k1 first(1)] first(2) show ?thesis by (intro before [of e]) (simp_all add: sil)
  next
    case (second a t)
    from keepsD [OF k1 second(1)] have st: "scheduled (history t) = scheduled (history s)"
      by (rule sil)
    from second(2) show ?thesis
    proof (cases rule: bind_cases)
      case (first e)
      from keepsD [OF k2 first(1)] st first(2) show ?thesis
        by (intro before [of e]) (simp_all add: sil)
    next
      case (second b t')
      from keepsD [OF k2 second(1)] st have "scheduled (history t') = scheduled (history s)"
        by (simp add: sil)
      with second(2) show ?thesis by (intro at_call [of t']) simp_all
    qed
  qed
qed


subsection \<open>Targets that cannot be resolved\<close>

lemma await_result:
  "fst (await env rq f s) = fst (f (page s))"
  by (simp add: await_def call_def split: prod.splits)

lemma resolve_raises_move:
  "resolve_box env sel wait s = (Inl e, t) \<Longrightarrow> move env sel pad wait s = (Inl e, t)"
  by (simp add: move_def bind_def)

lemma resolve_attempted:
  assumes "resolve_box env sel wait s = (r, t)"
  shows "attempted (history t) = attempted (history s)"
proof -
  have "keeps (silent (\<lambda>e. tried e \<noteq> [])) (resolve_box env sel wait)"
    by (rule silent_resolve_box) simp_all
  from keepsD [OF this assms] show ?thesis by (rule silent_attempted)
qed

lemma find_element_missing:
  assumes "\<forall>w. fst (query_selector env name w) = Inr None"
  shows "\<exists>e t. find_element env (Str name) wait s = (Inl e, t)
            \<and> (\<not> truthy wait \<longrightarrow> e = Exception (not_found_message name))"
proof -
  have query: "\<exists>t. bind (await env (QuerySelector name) (query_selector env name)) (\<lambda>found.
            case found of
              None \<Rightarrow> raise (Exception (not_found_message name))
            | Some elem \<Rightarrow> return elem) s1 = (Inl (Exception (not_found_message name)), t)" for s1
  proof -
    obtain q t where a: "await env (QuerySelector name) (query_selector env name) s1 = (q, t)"
      by (cases "await env (QuerySelector name) (query_selector env name) s1")
    from await_fields(1) [OF a] assms have "q = Inr None" by simp
    with a show ?thesis by (simp add: bind_def raise_def)
  qed
  show ?thesis
  proof (cases "truthy wait")
    case False
    with query [of s] show ?thesis by (simp add: find_element_def bind_def return_def)
  next
    case True
    obtain r s1 where a: "await env (WaitForSelector name (the wait))
        (wait_for_selector env name (the wait)) s = (r, s1)"
      by (cases "await env (WaitForSelector name (the wait))
        (wait_for_selector env name (the wait)) s")
    show ?thesis
    proof (cases r)
      case (Inl e)
      with a True show ?thesis by (simp add: find_element_def bind_def)
    next
      case (Inr u)
      with a True query [of s1] show ?thesis by (auto simp: find_element_def bind_def)
    qed
  qed
qed

lemma resolve_box_missing:
  assumes "\<forall>w. fst (query_selector env name w) = Inr None"
  shows "\<exists>e t. resolve_box env (Str name) wait s = (Inl e, t)
            \<and> (\<not> truthy wait \<longrightarrow> e = Exception (not_found_message name))"
proof -
  from find_element_missing [OF assms, of wait "toggle_random_move False s"]
  obtain e t where "find_element env (Str name) wait (toggle_random_move False s) = (Inl e, t)"
    "\<not> truthy wait \<longrightarrow> e = Exception (not_found_message name)" by blast
  then show ?thesis by (simp add: resolve_box_def bind_def modify_def)
qed

lemma resolve_box_no_dimensions:
  assumes "\<forall>elem w. fst (bounding_box env elem w) = Inr None"
  shows "\<exists>e t. resolve_box env sel wait s = (Inl e, t)"
proof -
  obtain r t where rt: "resolve_box env sel wait s = (r, t)" by (cases "resolve_box env sel wait s")
  show ?thesis
  proof (cases r)
    case (Inl e)
    with rt show ?thesis by blast
  next
    case (Inr box)
    from rt [unfolded resolve_box_def Inr] obtain u1 t1 where
      "bind (find_element env sel wait) (\<lambda>elem.
     bind (await env (ScrollIntoView elem) (scroll_into_view_if_needed env elem)) (\<lambda>u.
     bind (await env (BoundingBox elem) (bounding_box env elem)) (\<lambda>box.
       case box of
         None \<Rightarrow> raise (Exception no_dimensions_message)
       | Some b \<Rightarrow> return b))) t1 = (Inr box, t)"
      by (rule bind_returns)
    then obtain elem t2 where
      "bind (await env (ScrollIntoView elem) (scroll_into_view_if_needed env elem)) (\<lambda>u.
     bind (await env (BoundingBox elem) (bounding_box env elem)) (\<lambda>box.
       case box of
         None \<Rightarrow> raise (Exception no_dimensions_message)
       | Some b \<Rightarrow> return b)) t2 = (Inr box, t)"
      by (rule bind_returns)
    then obtain u3 t3 where
      "bind (await env (BoundingBox elem) (bounding_box env elem)) (\<lambda>box.
       case box of
         None \<Rightarrow> raise (Exception no_dimensions_message)
       | Some b \<Rightarrow> return b) t3 = (Inr box, t)"
      by (rule bind_returns)
    then obtain found t4 where a: "await env (BoundingBox elem) (bounding_box env elem) t3 = (Inr found, t4)"
      and c: "(case found of
         None \<Rightarrow> raise (Exception no_dimensions_message)
       | Some b \<Rightarrow> return b) t4 = (Inr box, t)"
      by (rule bind_returns)
    from await_fields(1) [OF a] assms have "found = None" by simp
    with c show ?thesis by (simp add: raise_def)
  qed
qed

lemma resolve_box_not_found:
  assumes "(if truthy wait then await env (WaitForSelector name (the wait))
                                  (wait_for_selector env name (the wait))
            else return ()) (toggle_random_move False s) = (Inr (), t)"
    and "fst (query_selector env name (page t)) = Inr None"
  shows "\<exists>t'. resolve_box env (Str name) wait s = (Inl (Exception (not_found_message name)), t')"
proof -
  obtain q t' where a: "await env (QuerySelector name) (query_selector env name) t = (q, t')"
    by (cases "await env (QuerySelector name) (query_selector env name) t")
  from await_fields(1) [OF a] assms(2) have q: "q = Inr None" by simp
  have "find_element env (Str name) wait (toggle_random_move False s)
      = (Inl (Exception (not_found_message name)), t')"
    using assms(1) a q by (simp add: find_element_def bind_def raise_def)
  then have "resolve_box env (Str name) wait s = (Inl (Exception (not_found_message name)), t')"
    by (simp add: resolve_box_def bind_def [of "modify (toggle_random_move False)"] modify_def
        bind_eq_raise)
  then show ?thesis by blast
qed

lemma resolve_box_no_box:
  assumes "find_element env sel wait (toggle_random_move False s) = (Inr elem, t1)"
    and "await env (ScrollIntoView elem) (scroll_into_view_if_needed env elem) t1 = (Inr u, t2)"
    and "fst (bounding_box env elem (page t2)) = Inr None"
  shows "\<exists>t'. resolve_box env sel wait s = (Inl (Exception no_dimensions_message), t')"
proof -
  obtain q t' where a: "await env (BoundingBox elem) (bounding_box env elem) t2 = (q, t')"
    by (cases "await env (BoundingBox elem) (bounding_box env elem) t2")
  from await_fields(1) [OF a] assms(3) have q: "q = Inr None" by simp
  have "resolve_box env sel wait s = (Inl (Exception no_dimensions_message), t')"
    using assms(1,2) a q by (simp add: resolve_box_def bind_def modify_def raise_def)
  then show ?thesis by blast
qed

subsection \<open>The recorded position and the flag after a move\<close>

lemma returns_idle_bind: "(\<And>a. returns_idle (k a)) \<Longrightarrow> returns_idle (bind m k)"
  by (auto simp: returns_idle_def elim!: bind_returns)

lemma returns_idle_toggle: "returns_idle (modify (toggle_random_move True))"
  by (simp add: returns_idle_def modify_def toggle_random_move_def)

lemma returns_idle_raise: "returns_idle (raise e)"
  by (simp add: returns_idle_def raise_def)

lemma returns_idle_option:
  "returns_idle m \<Longrightarrow> (\<And>x. returns_idle (k x)) \<Longrightarrow>
     returns_idle (case opt of None \<Rightarrow> m | Some x \<Rightarrow> k x)"
  by (cases opt) simp_all

lemmas returns_idle_intros = returns_idle_bind returns_idle_toggle returns_idle_raise
  returns_idle_option

lemma returns_idle_move_to_box: "returns_idle (move_to_box env box pad)"
  unfolding move_to_box_def Let_def by (intro returns_idle_intros)

lemma returns_idle_move: "returns_idle (move env sel pad wait)"
  unfolding move_def by (intro returns_idle_intros returns_idle_move_to_box)

lemma returns_idle_click: "returns_idle (click env sel pad wait wfc)"
  unfolding click_def by (intro returns_idle_intros)

lemma returns_idle_move_to: "returns_idle (move_to env d)"
  unfolding move_to_def by (intro returns_idle_intros)

lemma returns_idleD: "returns_idle m \<Longrightarrow> is_ok (fst (m s)) \<Longrightarrow> \<not> moving (snd (m s))"
  by (cases "m s"; cases "fst (m s)") (auto simp: returns_idle_def)

text \<open>The position after \<open>move_to_box\<close> has returned.\<close>

lemma sets_previous_bind: "(\<And>a. sets_previous d (k a)) \<Longrightarrow> sets_previous d (bind m k)"
  by (auto simp: sets_previous_def elim!: bind_returns)

lemma sets_previous_last:
  "sets_previous d (bind (modify (\<lambda>s. s\<lparr>previous := d\<rparr>)) (\<lambda>u. modify (toggle_random_move True)))"
  by (simp add: sets_previous_def bind_def modify_def toggle_random_move_def)

lemma move_to_box_previous:
  assumes "move_to_box env box pad s = (Inr u, s')"
  shows "previous s' = fst (get_random_box_point env box pad (page s))"
proof -
  from assms [unfolded move_to_box_def] obtain d t where
    d: "draw (get_random_box_point env box pad) s = (Inr d, t)"
    and rest: "bind (get previous) (\<lambda>start.
       let overshooting = should_overshoot env start d in
       bind (if overshooting then
               bind (get overshoot_radius) (\<lambda>radius. draw (overshoot env d radius))
             else return d) (\<lambda>to.
       bind (get previous) (\<lambda>start.
       bind (draw (path env start (ToVector to) None)) (\<lambda>vectors.
       bind (trace_path env vectors False) (\<lambda>u.
       bind (if overshooting then
               bind (get overshoot_spread) (\<lambda>spread.
               bind (draw (path env to
                             (ToBox \<lparr>box_x = vec_x d, box_y = vec_y d,
                                     box_width = box_width box, box_height = box_height box\<rparr>)
                             (Some spread))) (\<lambda>correction.
                 trace_path env correction False))
             else return ()) (\<lambda>u.
       bind (modify (\<lambda>s. s\<lparr>previous := d\<rparr>)) (\<lambda>u.
         modify (toggle_random_move True)))))))) t = (Inr u, s')"
    by (rule bind_returns)
  have "sets_previous d (bind (get previous) (\<lambda>start.
       let overshooting = should_overshoot env start d in
       bind (if overshooting then
               bind (get overshoot_radius) (\<lambda>radius. draw (overshoot env d radius))
             else return d) (\<lambda>to.
       bind (get previous) (\<lambda>start.
       bind (draw (path env start (ToVector to) None)) (\<lambda>vectors.
       bind (trace_path env vectors False) (\<lambda>u.
       bind (if overshooting then
               bind (get overshoot_spread) (\<lambda>spread.
               bind (draw (path env to
                             (ToBox \<lparr>box_x = vec_x d, box_y = vec_y d,
                                     box_width = box_width box, box_height = box_height box\<rparr>)
                             (Some spread))) (\<lambda>correction.
                 trace_path env correction False))
             else return ()) (\<lambda>u.
       bind (modify (\<lambda>s. s\<lparr>previous := d\<rparr>)) (\<lambda>u.
         modify (toggle_random_move True)))))))))"
    unfolding Let_def by (intro sets_previous_bind sets_previous_last)
  with rest have "previous s' = d" by (auto simp: sets_previous_def)
  with draw_fields(1) [OF d] show ?thesis by simp
qed

subsection \<open>The flag when an operation raises\<close>

lemma still_busy_reflp: "reflp still_busy"
  by (simp add: reflp_def still_busy_def)

lemma still_busy_transp: "transp still_busy"
  by (simp add: transp_def still_busy_def)

lemma still_busy_modify: "(\<And>s. moving s \<Longrightarrow> moving (f s)) \<Longrightarrow> keeps still_busy (modify f)"
  by (simp add: keeps_def still_busy_def modify_def)

lemma still_busy_draw: "keeps still_busy (draw f)"
  by (simp add: keeps_def still_busy_def draw_def split: prod.splits)

lemma still_busy_call: "keeps still_busy (call rq f)"
  by (simp add: keeps_def still_busy_def call_def split: prod.splits)

lemma still_busy_await: "quiet env \<Longrightarrow> keeps still_busy (await env rq f)"
  by (simp add: keeps_def still_busy_def await_def call_def quiet_def split: prod.splits)

lemma still_busy_trace_step:
  assumes "quiet env"
  shows "keeps still_busy (trace_step env v ab)"
  using assms
  by (auto simp: keeps_def still_busy_def trace_step_def await_def call_def quiet_def
      logger_debug_def split: prod.splits sum.splits exn.splits)

lemma still_busy_toggle: "keeps still_busy (modify (toggle_random_move False))"
  by (rule still_busy_modify) (simp add: toggle_random_move_def)

lemma still_busy_set_previous: "keeps still_busy (modify (\<lambda>s. s\<lparr>previous := v\<rparr>))"
  by (rule still_busy_modify) simp

lemma still_busy_set_is_mobile: "keeps still_busy (modify (\<lambda>s. s\<lparr>is_mobile := v\<rparr>))"
  by (rule still_busy_modify) simp

lemma still_busy_logger: "keeps still_busy (modify (logger_debug msg))"
  by (rule still_busy_modify) (simp add: logger_debug_def)

lemmas still_busy_intros = keeps_bind [OF still_busy_transp]
  keeps_except_Exception [OF still_busy_transp] keeps_return [OF still_busy_reflp]
  keeps_raise [OF still_busy_reflp] keeps_get [OF still_busy_reflp]
  keeps_compute [OF still_busy_reflp] keeps_if keeps_option
  keeps_selector still_busy_draw still_busy_call still_busy_await
  keeps_trace_path [OF still_busy_reflp still_busy_transp] still_busy_trace_step
  still_busy_toggle still_busy_set_previous still_busy_set_is_mobile still_busy_logger

lemma raises_busyD: "raises_busy m \<Longrightarrow> moving s \<Longrightarrow> m s = (Inl e, s') \<Longrightarrow> moving s'"
  unfolding raises_busy_def by blast

lemma raises_busy_bind:
  assumes "keeps still_busy m" and "\<And>a. raises_busy (k a)"
  shows "raises_busy (bind m k)"
  unfolding raises_busy_def
proof (intro allI impI)
  fix s e s'
  assume busy: "moving s" and b: "bind m k s = (Inl e, s')"
  from b show "moving s'"
  proof (cases rule: bind_cases)
    case (first e')
    from keepsD [OF assms(1) first(1)] busy show ?thesis by (simp add: still_busy_def)
  next
    case (second a t)
    from keepsD [OF assms(1) second(1)] busy have "moving t" by (simp add: still_busy_def)
    from raises_busyD [OF assms(2) this second(2)] show ?thesis .
  qed
qed

lemma raises_busy_modify: "raises_busy (modify f)"
  by (simp add: raises_busy_def modify_def)

lemma still_busy_find_element: "quiet env \<Longrightarrow> keeps still_busy (find_element env sel wait)"
  unfolding find_element_def by (intro still_busy_intros)

lemma still_busy_resolve_box: "quiet env \<Longrightarrow> keeps still_busy (resolve_box env sel wait)"
  unfolding resolve_box_def by (intro still_busy_intros still_busy_find_element)

lemma resolve_box_busy:
  assumes "quiet env" and "resolve_box env sel wait s = (r, t)"
  shows "moving t"
proof -
  have "resolve_box env sel wait (toggle_random_move False s) = (r, t)"
    using assms(2) by (simp add: resolve_box_def bind_def modify_def toggle_random_move_def)
  from keepsD [OF still_busy_resolve_box [OF assms(1)] this] show ?thesis
    by (simp add: still_busy_def toggle_random_move_def)
qed

lemma raises_busy_move_to_box:
  assumes "quiet env"
  shows "raises_busy (move_to_box env box pad)"
  unfolding move_to_box_def Let_def
  by (intro raises_busy_bind raises_busy_modify still_busy_intros assms)

lemma move_raises_busy:
  assumes "quiet env" and "move env sel pad wait s = (Inl e, s')"
  shows "moving s'"
  using assms(2) unfolding move_def
proof (cases rule: bind_cases)
  case (first e')
  from resolve_box_busy [OF assms(1) first(1)] show ?thesis .
next
  case (second box t)
  from raises_busyD [OF raises_busy_move_to_box [OF assms(1)]
      resolve_box_busy [OF assms(1) second(1)] second(2)]
  show ?thesis .
qed

lemma still_busy_click_target:
  assumes "quiet env"
  shows "keeps still_busy (click_target env sel pad wait)"
proof (cases sel)
  case None
  then show ?thesis by (simp add: click_target_def keeps_get [OF still_busy_reflp])
next
  case (Some target)
  have "still_busy s (snd (click_target env sel pad wait s))" for s
  proof (cases "move env target pad wait s")
    case (Pair r t)
    show ?thesis
    proof (cases r)
      case (Inl e)
      with Pair move_raises_busy [OF assms, of target pad wait s e t] Some show ?thesis
        by (simp add: click_target_def bind_def still_busy_def)
    next
      case (Inr u)
      with Pair Some show ?thesis
        by (simp add: click_target_def bind_def still_busy_def modify_def get_def
            toggle_random_move_def)
    qed
  qed
  then show ?thesis by (simp add: keeps_def)
qed

lemma still_busy_detect_mobile: "quiet env \<Longrightarrow> keeps still_busy (detect_mobile env)"
  unfolding detect_mobile_def by (intro still_busy_intros)

lemma still_busy_press: "quiet env \<Longrightarrow> keeps still_busy (press env coords wfc)"
  unfolding press_def by (intro still_busy_intros still_busy_detect_mobile)

lemma still_busy_random_sleep: "quiet env \<Longrightarrow> keeps still_busy (random_sleep env)"
  unfolding random_sleep_def by (intro still_busy_intros)

lemma click_raises_busy:
  assumes "quiet env" and "click env sel pad wait wfc s = (Inl e, s')"
  shows "moving s'"
proof -
  let ?rest = "bind (click_target env sel pad wait) (\<lambda>target_coords.
     bind (except_Exception (press env target_coords wfc) (\<lambda>msg.
             modify (logger_debug
               (''Warning: could not click mouse/touch, error message: '' @ msg)))) (\<lambda>u.
     bind (random_sleep env) (\<lambda>u.
       modify (toggle_random_move True))))"
  have rb: "raises_busy ?rest"
    by (intro raises_busy_bind raises_busy_modify still_busy_click_target still_busy_intros
        still_busy_press still_busy_random_sleep assms(1))
  from assms(2) have run: "?rest (toggle_random_move False s) = (Inl e, s')"
    by (simp add: click_def bind_def modify_def)
  have busy: "moving (toggle_random_move False s)" by (simp add: toggle_random_move_def)
  from raises_busyD [OF rb busy run] show ?thesis .
qed

lemma move_to_raises_busy:
  assumes "quiet env" and "move_to env d s = (Inl e, s')" and "d ''x'' = Some a" and "d ''y'' = Some b"
  shows "moving s'"
proof -
  let ?rest = "bind (get previous) (\<lambda>start.
               bind (draw (path env start (ToVector (Vector a b)) None)) (\<lambda>vectors.
               bind (trace_path env vectors False) (\<lambda>u.
                 modify (toggle_random_move True))))"
  have rb: "raises_busy ?rest"
    by (intro raises_busy_bind raises_busy_modify still_busy_intros assms(1))
  from assms(2-4) have run: "?rest (toggle_random_move False s) = (Inl e, s')"
    by (simp add: move_to_def bind_def modify_def)
  have busy: "moving (toggle_random_move False s)" by (simp add: toggle_random_move_def)
  from raises_busyD [OF rb busy run] show ?thesis .
qed

subsection \<open>The press of a click\<close>

lemma await_ok:
  assumes "is_ok (fst (f (page s)))"
  shows "\<exists>a s'. await env rq f s = (Inr a, s') \<and> history s' = history s @ [Call rq True]
           \<and> is_mobile s' = is_mobile s"
proof -
  obtain r s' where a: "await env rq f s = (r, s')" by (cases "await env rq f s")
  from await_fields(1) [OF a] assms have "is_ok r" by simp
  then obtain x where "r = Inr x" by (cases r) simp_all
  with a await_fields(3,5) [OF a] show ?thesis by simp
qed




lemma random_sleep_returns:
  assumes "\<forall>d w. is_ok (fst (sleep env d w))"
  shows "\<exists>t3. random_sleep env t2 = (Inr (), t3) \<and> is_mobile t3 = is_mobile t2
           \<and> history t3 = history t2 @ [Call (Sleep (fst (random env (page t2)) * 2)) True]"
proof -
  let ?r = "fst (random env (page t2))"
  let ?t = "t2\<lparr>page := snd (random env (page t2))\<rparr>"
  from assms have "is_ok (fst (sleep env (?r * 2) (page ?t)))" by blast
  from await_ok [where env = env and rq = "Sleep (?r * 2)" and f = "sleep env (?r * 2)" and s = ?t, OF this] obtain u t3 where
    "await env (Sleep (?r * 2)) (sleep env (?r * 2)) ?t = (Inr u, t3)"
    "history t3 = history ?t @ [Call (Sleep (?r * 2)) True]" "is_mobile t3 = is_mobile ?t"
    by blast
  then show ?thesis
    by (simp add: random_sleep_def bind_def draw_def case_prod_unfold)
qed



subsection \<open>The touch capability over the life of a controller\<close>

lemma lifetime_reflp: "reflp lifetime"
  by (simp add: reflp_def lifetime_def settled_def split: option.splits)

lemma lifetime_transp: "transp lifetime"
  by (auto simp: transp_def lifetime_def settled_def split: option.splits)

lemma lifetime_refl: "lifetime s s"
  by (simp add: lifetime_def settled_def split: option.splits)

lemma lifetime_trans: "lifetime a b \<Longrightarrow> lifetime b c \<Longrightarrow> lifetime a c"
  by (auto simp: lifetime_def settled_def split: option.splits)

lemma untouched_lifetime: "untouched s s' \<Longrightarrow> lifetime s s'"
  by (auto simp: untouched_def lifetime_def settled_def determined_def split: option.splits)

lemma keeps_untouched: "keeps untouched m \<Longrightarrow> keeps lifetime m"
  by (simp add: keeps_def untouched_lifetime)

lemma untouched_modify:
  "(\<And>s. is_mobile (f s) = is_mobile s) \<Longrightarrow> (\<And>s. \<exists>msgs. history (f s) = history s @ map Log msgs)
     \<Longrightarrow> keeps untouched (modify f)"
proof -
  assume a: "\<And>s. is_mobile (f s) = is_mobile s"
    and b: "\<And>s. \<exists>msgs. history (f s) = history s @ map Log msgs"
  have "untouched s (f s)" for s
  proof -
    from b [of s] obtain msgs where h: "history (f s) = history s @ map Log msgs" by blast
    have "filter P (map Log msgs) = []" if "\<And>msg. \<not> P (Log msg)" for P
      using that by (induction msgs) simp_all
    with a [of s] h show ?thesis by (simp add: untouched_def queries_def answered_def)
  qed
  then show ?thesis by (simp add: keeps_def modify_def)
qed

lemma lifetime_toggle: "keeps lifetime (modify (toggle_random_move b))"
  by (intro keeps_untouched untouched_modify)
     (auto simp: toggle_random_move_def intro: exI [of _ "[]"])

lemma lifetime_set_previous: "keeps lifetime (modify (\<lambda>s. s\<lparr>previous := v\<rparr>))"
  by (intro keeps_untouched untouched_modify) (auto intro: exI [of _ "[]"])

lemma lifetime_set_cdp_session: "keeps lifetime (modify (\<lambda>s. s\<lparr>cdp_session := v\<rparr>))"
  by (intro keeps_untouched untouched_modify) (auto intro: exI [of _ "[]"])

lemma lifetime_logger: "keeps lifetime (modify (logger_debug msg))"
  by (intro keeps_untouched untouched_modify)
     (auto simp: logger_debug_def intro: exI [of _ "[msg]"])

lemma lifetime_draw: "keeps lifetime (draw f)"
  by (intro keeps_untouched) (simp add: keeps_def untouched_def draw_def split: prod.splits)

lemma lifetime_call: "rq \<noteq> Evaluate \<Longrightarrow> keeps lifetime (call rq f)"
  by (intro keeps_untouched)
     (simp add: keeps_def untouched_def call_def queries_def answered_def split: prod.splits)

lemma lifetime_await: "rq \<noteq> Evaluate \<Longrightarrow> keeps lifetime (await env rq f)"
  by (intro keeps_untouched)
     (simp add: keeps_def untouched_def await_def call_def queries_def answered_def
        split: prod.splits option.splits)

lemma lifetime_trace_step: "keeps lifetime (trace_step env v ab)"
proof (intro keeps_untouched)
  have "untouched s (snd (trace_step env v ab s))" for s
  proof -
    obtain r t where rt: "trace_step env v ab s = (r, t)" by (cases "trace_step env v ab s")
    from rt have "queries (history t) = queries (history s)
        \<and> answered (history t) = answered (history s)"
      by (cases rule: trace_step_cases) (simp_all add: queries_def answered_def)
    with trace_step_frame(1) [OF rt] rt show ?thesis by (simp add: untouched_def)
  qed
  then show "keeps untouched (trace_step env v ab)" by (simp add: keeps_def)
qed

lemma lifetime_detect_mobile: "keeps lifetime (detect_mobile env)"
proof -
  have "lifetime s (snd (detect_mobile env s))" for s
  proof (cases "is_mobile s")
    case (Some b)
    then have "detect_mobile env s = (Inr b, s)"
      by (simp add: detect_mobile_def bind_def get_def return_def)
    then show ?thesis by (simp add: lifetime_refl)
  next
    case None
    obtain r t where a: "await env Evaluate (evaluate env) s = (r, t)"
      by (cases "await env Evaluate (evaluate env) s")
    note f = await_fields(3,5) [OF a]
    show ?thesis
    proof (cases r)
      case (Inl e)
      with a None f show ?thesis
        by (simp add: detect_mobile_def bind_def get_def lifetime_def settled_def
            determined_def answered_def)
    next
      case (Inr b)
      with a None f show ?thesis
        by (simp add: detect_mobile_def bind_def get_def return_def modify_def lifetime_def
            settled_def determined_def answered_def)
    qed
  qed
  then show ?thesis by (simp add: keeps_def)
qed

lemmas lifetime_intros = keeps_bind [OF lifetime_transp]
  keeps_except_Exception [OF lifetime_transp] keeps_except_all [OF lifetime_transp]
  keeps_return [OF lifetime_reflp] keeps_raise [OF lifetime_reflp] keeps_get [OF lifetime_reflp]
  keeps_compute [OF lifetime_reflp] keeps_if keeps_option keeps_selector lifetime_draw lifetime_call lifetime_await
  keeps_trace_path [OF lifetime_reflp lifetime_transp] lifetime_trace_step lifetime_toggle
  lifetime_set_previous lifetime_set_cdp_session lifetime_logger lifetime_detect_mobile

lemma lifetime_trace_path: "keeps lifetime (trace_path env vs ab)"
  by (intro lifetime_intros)

lemma lifetime_find_element: "keeps lifetime (find_element env sel wait)"
  unfolding find_element_def by (intro lifetime_intros) simp_all

lemma lifetime_resolve_box: "keeps lifetime (resolve_box env sel wait)"
  unfolding resolve_box_def by (intro lifetime_intros lifetime_find_element) simp_all

lemma lifetime_move_to_box: "keeps lifetime (move_to_box env box pad)"
  unfolding move_to_box_def Let_def by (intro lifetime_intros)

lemma lifetime_move: "keeps lifetime (move env sel pad wait)"
  unfolding move_def by (intro lifetime_intros lifetime_resolve_box lifetime_move_to_box)

lemma lifetime_press: "keeps lifetime (press env coords wfc)"
  unfolding press_def by (intro lifetime_intros) simp_all

lemma lifetime_random_sleep: "keeps lifetime (random_sleep env)"
  unfolding random_sleep_def by (intro lifetime_intros) simp_all

lemma lifetime_click_target: "keeps lifetime (click_target env sel pad wait)"
  unfolding click_target_def by (intro lifetime_intros lifetime_move)

lemma lifetime_click: "keeps lifetime (click env sel pad wait wfc)"
  unfolding click_def
  by (intro lifetime_intros lifetime_click_target lifetime_press lifetime_random_sleep)

lemma lifetime_move_to: "keeps lifetime (move_to env d)"
  unfolding move_to_def by (intro lifetime_intros)

lemma lifetime_get_cdp_session: "keeps lifetime (get_cdp_session env)"
  unfolding get_cdp_session_def by (intro lifetime_intros) simp_all

lemma lifetime_get_random_page_point: "keeps lifetime (get_random_page_point env)"
  unfolding get_random_page_point_def
  by (intro lifetime_intros lifetime_get_cdp_session) simp_all

lemma lifetime_random_move: "keeps lifetime (random_move env)"
  unfolding random_move_def random_move_body_def random_step_def
  by (intro lifetime_intros lifetime_get_random_page_point lifetime_random_sleep) simp_all

lemma keeps_snd: "keeps R m \<Longrightarrow> R s (snd (m s))"
  by (simp add: keeps_def)

lemma lifetime_perform: "lifetime s (perform env op s)"
proof (cases op)
  case DetectMobile
  then show ?thesis by (simp add: keeps_snd [OF lifetime_detect_mobile])
next
  case (TracePath vs ab)
  then show ?thesis by (simp add: keeps_snd [OF lifetime_trace_path])
next
  case (ToggleRandomMove b)
  have "untouched s (toggle_random_move b s)"
    by (simp add: untouched_def toggle_random_move_def)
  then show ?thesis by (simp add: ToggleRandomMove untouched_lifetime)
next
  case (Move sel pad wait)
  then show ?thesis by (simp add: keeps_snd [OF lifetime_move])
next
  case (Click sel pad wait wfc)
  then show ?thesis by (simp add: keeps_snd [OF lifetime_click])
next
  case (MoveTo d)
  then show ?thesis by (simp add: keeps_snd [OF lifetime_move_to])
next
  case RandomMove
  then show ?thesis by (simp add: keeps_snd [OF lifetime_random_move])
qed

lemma lifetime_run: "lifetime s (run env ops s)"
  unfolding run_def
proof (induction ops arbitrary: s)
  case Nil
  show ?case by (simp add: lifetime_refl)
next
  case (Cons op ops)
  from lifetime_trans [OF lifetime_perform [of s env op] Cons [of "perform env op s"]]
  show ?case by simp
qed

subsection \<open>The paths of a move\<close>





subsection \<open>The body of random\_move\<close>

lemma random_step_ok:
  assumes "transient env" and "is_ok (fst (get_random_page_point env s))"
  shows "is_ok (fst (random_step env s))"
proof -
  from assms(2) obtain rand t0 where g: "get_random_page_point env s = (Inr rand, t0)"
    by (cases "get_random_page_point env s"; cases "fst (get_random_page_point env s)") simp_all
  let ?p = "path env (previous t0) (ToVector rand) None (page t0)"
  obtain r t3 where t: "trace_path env (fst ?p) True (t0\<lparr>page := snd ?p\<rparr>) = (r, t3)"
    by (cases "trace_path env (fst ?p) True (t0\<lparr>page := snd ?p\<rparr>)")
  from trace_path_transient [OF assms(1), of "fst ?p" True "t0\<lparr>page := snd ?p\<rparr>"] t
  have "r = Inr ()" by simp
  with g t show ?thesis
    by (simp add: random_step_def bind_def get_def draw_def modify_def case_prod_unfold)
qed

lemma random_move_body_ok:
  assumes "transient env" and "moving s \<or> is_ok (fst (get_random_page_point env s))"
    and "\<forall>d w. is_ok (fst (sleep env d w))" and "\<forall>w. is_ok (fst (ensure_future env w))"
  shows "is_ok (fst (random_move_body env s))"
proof -
  have "is_ok (fst ((if \<not> moving s then random_step env else return ()) s))"
    using assms(2) random_step_ok [OF assms(1), of s] by (auto simp: return_def)
  then obtain u t1 where 1: "(if \<not> moving s then random_step env else return ()) s = (Inr u, t1)"
    by (cases "(if \<not> moving s then random_step env else return ()) s";
        cases "fst ((if \<not> moving s then random_step env else return ()) s)") simp_all
  from random_sleep_returns [OF assms(3), of t1] obtain t2 where
    2: "random_sleep env t1 = (Inr (), t2)" by blast
  from assms(4) have "is_ok (fst (ensure_future env (page t2)))" by blast
  then have 3: "is_ok (fst (call EnsureFuture (ensure_future env) t2))"
    by (simp add: call_def case_prod_unfold)
  have "random_move_body env s = call EnsureFuture (ensure_future env) t2"
    using 1 2 by (simp add: random_move_body_def bind_def get_def)
  with 3 show ?thesis by simp
qed

lemma random_move_body_sampling:
  assumes "\<not> moving s" and "get_random_page_point env s = (Inl e, t)"
  shows "random_move_body env s = (Inl e, t)"
  using assms by (simp add: random_move_body_def random_step_def bind_def get_def)

subsection \<open>The recorded position\<close>

lemma tracksI:
  "dispatched (history s') = dispatched (history s) @ ds \<Longrightarrow> previous s' = last (previous s # ds)
     \<Longrightarrow> tracks s s'"
  by (simp add: tracks_def)

lemma tracksE:
  assumes "tracks s s'"
  obtains ds where "dispatched (history s') = dispatched (history s) @ ds"
    and "previous s' = last (previous s # ds)"
proof -
  from assms obtain ds where ds: "dispatched (history s') = dispatched (history s) @ ds"
    by (auto simp: tracks_def prefix_def)
  with assms have "previous s' = last (previous s # ds)" by (simp add: tracks_def)
  with ds show ?thesis by (rule that)
qed

lemma tracks_refl: "tracks s s"
  by (simp add: tracks_def)

lemma tracks_trans:
  assumes "tracks a b" and "tracks b c"
  shows "tracks a c"
proof -
  from assms(1) obtain d1 where d1: "dispatched (history b) = dispatched (history a) @ d1"
    "previous b = last (previous a # d1)" by (rule tracksE)
  from assms(2) obtain d2 where d2: "dispatched (history c) = dispatched (history b) @ d2"
    "previous c = last (previous b # d2)" by (rule tracksE)
  from d1(1) d2(1) have h: "dispatched (history c) = dispatched (history a) @ d1 @ d2" by simp
  from d1(2) d2(2) have p: "previous c = last (previous a # d1 @ d2)"
    by (cases d2) (simp_all add: last_append)
  from h p show ?thesis by (rule tracksI)
qed

lemma tracks_reflp: "reflp tracks"
  by (simp add: reflp_def tracks_refl)

lemma tracks_transp: "transp tracks"
  unfolding transp_def using tracks_trans by blast

lemma same_position_reflp: "reflp same_position"
  by (simp add: reflp_def same_position_def)

lemma same_position_transp: "transp same_position"
  by (simp add: transp_def same_position_def)

lemma same_position_tracks: "same_position s s' \<Longrightarrow> tracks s s'"
  by (simp add: same_position_def tracks_def)

lemma keeps_same_position: "keeps same_position m \<Longrightarrow> keeps tracks m"
  by (simp add: keeps_def same_position_tracks)

lemma same_position_modify:
  "(\<And>s. previous (f s) = previous s) \<Longrightarrow> (\<And>s. dispatched (history (f s)) = dispatched (history s))
     \<Longrightarrow> keeps same_position (modify f)"
  by (simp add: keeps_def same_position_def modify_def)

lemma same_position_draw: "keeps same_position (draw f)"
  by (simp add: keeps_def same_position_def draw_def split: prod.splits)

lemma same_position_call: "(\<And>ok. moved (Call rq ok) = []) \<Longrightarrow> keeps same_position (call rq f)"
  by (auto simp: keeps_def same_position_def call_def split: prod.splits)

lemma same_position_await:
  "(\<And>ok. moved (Call rq ok) = []) \<Longrightarrow> keeps same_position (await env rq f)"
  by (auto simp: keeps_def same_position_def await_def call_def split: prod.splits option.splits)

lemma same_position_toggle: "keeps same_position (modify (toggle_random_move b))"
  by (rule same_position_modify) (simp_all add: toggle_random_move_def)

lemma same_position_set_is_mobile: "keeps same_position (modify (\<lambda>s. s\<lparr>is_mobile := v\<rparr>))"
  by (rule same_position_modify) simp_all

lemma same_position_set_cdp_session: "keeps same_position (modify (\<lambda>s. s\<lparr>cdp_session := v\<rparr>))"
  by (rule same_position_modify) simp_all

lemma same_position_logger: "keeps same_position (modify (logger_debug msg))"
  by (rule same_position_modify) (simp_all add: logger_debug_def)

lemmas same_position_intros = keeps_bind [OF same_position_transp]
  keeps_except_Exception [OF same_position_transp] keeps_except_all [OF same_position_transp]
  keeps_return [OF same_position_reflp] keeps_raise [OF same_position_reflp]
  keeps_get [OF same_position_reflp] keeps_compute [OF same_position_reflp] keeps_if
  keeps_option keeps_selector same_position_draw same_position_call same_position_await
  same_position_toggle same_position_set_is_mobile same_position_set_cdp_session
  same_position_logger

lemma tracks_trace_step: "keeps tracks (trace_step env v ab)"
  unfolding keeps_def
proof
  fix s
  obtain r t where rt: "trace_step env v ab s = (r, t)" by (cases "trace_step env v ab s")
  from trace_step_previous [OF rt] obtain ds where
    "dispatched (history t) = dispatched (history s) @ ds" "previous t = last (previous s # ds)"
    by blast
  then have "tracks s t" by (rule tracksI)
  with rt show "tracks s (snd (trace_step env v ab s))" by simp
qed

lemmas tracks_intros = keeps_bind [OF tracks_transp] keeps_except_Exception [OF tracks_transp]
  keeps_except_all [OF tracks_transp] keeps_return [OF tracks_reflp] keeps_raise [OF tracks_reflp]
  keeps_get [OF tracks_reflp] keeps_compute [OF tracks_reflp] keeps_if keeps_option
  keeps_selector keeps_trace_path [OF tracks_reflp tracks_transp] tracks_trace_step
  same_position_draw [THEN keeps_same_position] same_position_call [THEN keeps_same_position]
  same_position_await [THEN keeps_same_position] same_position_toggle [THEN keeps_same_position]
  same_position_set_is_mobile [THEN keeps_same_position]
  same_position_set_cdp_session [THEN keeps_same_position]
  same_position_logger [THEN keeps_same_position]

lemma raisingD: "raising R m \<Longrightarrow> m s = (Inl e, s') \<Longrightarrow> R s s'"
  unfolding raising_def by blast

lemma raising_bind:
  assumes "transp R" and "keeps R m" and "\<And>a. raising R (k a)"
  shows "raising R (bind m k)"
  unfolding raising_def
proof (intro allI impI)
  fix s e s'
  assume "bind m k s = (Inl e, s')"
  then show "R s s'"
  proof (cases rule: bind_cases)
    case (first e')
    from keepsD [OF assms(2) first(1)] show ?thesis .
  next
    case (second a t)
    from keepsD [OF assms(2) second(1)] raisingD [OF assms(3) second(2)] assms(1)
    show ?thesis by (blast dest: transpD)
  qed
qed

lemma raising_modify_modify: "raising R (bind (modify f) (\<lambda>u. modify g))"
  by (simp add: raising_def bind_def modify_def)

lemma raising_modify: "raising R (modify f)"
  by (simp add: raising_def modify_def)

lemma tracks_find_element: "keeps tracks (find_element env sel wait)"
  unfolding find_element_def by (intro tracks_intros) simp_all

lemma tracks_resolve_box: "keeps tracks (resolve_box env sel wait)"
  unfolding resolve_box_def by (intro tracks_intros tracks_find_element) simp_all

lemma raising_move_to_box: "raising tracks (move_to_box env box pad)"
  unfolding move_to_box_def Let_def
  by (intro raising_modify_modify raising_bind [OF tracks_transp] tracks_intros)

lemma raising_move: "raising tracks (move env sel pad wait)"
  unfolding move_def
  by (intro raising_bind [OF tracks_transp] tracks_resolve_box raising_move_to_box)

lemma tracks_move_to: "keeps tracks (move_to env d)"
  unfolding move_to_def by (intro tracks_intros)

lemma tracks_get_cdp_session: "keeps tracks (get_cdp_session env)"
  unfolding get_cdp_session_def by (intro tracks_intros) simp_all

lemma tracks_get_random_page_point: "keeps tracks (get_random_page_point env)"
  unfolding get_random_page_point_def by (intro tracks_intros tracks_get_cdp_session) simp_all

lemma raising_random_step: "raising tracks (random_step env)"
  unfolding random_step_def
  by (intro raising_modify raising_bind [OF tracks_transp] tracks_intros
      tracks_get_random_page_point)


lemma same_positionD:
  "same_position s s' \<Longrightarrow> previous s' = previous s"
  "same_position s s' \<Longrightarrow> dispatched (history s') = dispatched (history s)"
  by (simp_all add: same_position_def)

lemma same_position_refl: "same_position s s"
  by (simp add: same_position_def)

lemma same_position_trans: "same_position a b \<Longrightarrow> same_position b c \<Longrightarrow> same_position a c"
  by (simp add: same_position_def)

lemma same_position_detect_mobile: "keeps same_position (detect_mobile env)"
  unfolding detect_mobile_def by (intro same_position_intros) simp_all

lemma same_position_press: "keeps same_position (press env coords wfc)"
  unfolding press_def by (intro same_position_intros same_position_detect_mobile) simp_all

lemma same_position_random_sleep: "keeps same_position (random_sleep env)"
  unfolding random_sleep_def by (intro same_position_intros) simp_all

lemma same_position_after_move:
  "keeps same_position
     (bind (except_Exception (press env coords wfc) (\<lambda>msg.
             modify (logger_debug
               (''Warning: could not click mouse/touch, error message: '' @ msg)))) (\<lambda>u.
      bind (random_sleep env) (\<lambda>u.
        modify (toggle_random_move True))))"
  by (intro same_position_intros same_position_press same_position_random_sleep)

lemma move_toggle:
  "move env sel pad wait (toggle_random_move False s) = move env sel pad wait s"
proof -
  have "resolve_box env sel wait (toggle_random_move False s) = resolve_box env sel wait s"
    by (simp add: resolve_box_def bind_def [of "modify (toggle_random_move False)"] modify_def
        toggle_random_move_def)
  then show ?thesis by (simp add: move_def bind_def)
qed

lemma click_position:
  "same_position (case csel of None \<Rightarrow> s | Some target \<Rightarrow> snd (move env target pad wait s))
     (snd (click env csel pad wait wfc s))"
proof -
  let ?s0 = "toggle_random_move False s"
  let ?rest = "\<lambda>coords. bind (except_Exception (press env coords wfc) (\<lambda>msg.
             modify (logger_debug
               (''Warning: could not click mouse/touch, error message: '' @ msg)))) (\<lambda>u.
      bind (random_sleep env) (\<lambda>u.
        modify (toggle_random_move True)))"
  have rest: "same_position a (snd (?rest coords a))" for a coords
    by (rule keeps_snd [OF same_position_after_move])
  have unfold: "click env c pad wait wfc s = bind (click_target env c pad wait) ?rest ?s0" for c
    by (simp add: click_def bind_def [of "modify (toggle_random_move False)"] modify_def)
  show ?thesis
  proof (cases csel)
    case None
    have eq: "click env None pad wait wfc s = ?rest (previous ?s0) ?s0"
      by (simp add: unfold click_target_def bind_def get_def)
    have "same_position s ?s0" by (simp add: same_position_def toggle_random_move_def)
    from same_position_trans [OF this rest [of ?s0 "previous ?s0"]]
    show ?thesis unfolding None eq by simp
  next
    case (Some target)
    obtain r t where m: "move env target pad wait s = (r, t)"
      by (cases "move env target pad wait s")
    then have m0: "move env target pad wait ?s0 = (r, t)" by (simp add: move_toggle)
    show ?thesis
    proof (cases r)
      case (Inl e)
      have eq: "click env (Some target) pad wait wfc s = (Inl e, t)"
        using m0 Inl by (simp add: unfold click_target_def bind_def)
      show ?thesis unfolding Some eq using m by (simp add: same_position_refl)
    next
      case (Inr u)
      let ?t = "toggle_random_move False t"
      have eq: "click env (Some target) pad wait wfc s = ?rest (previous ?t) ?t"
        using m0 Inr by (simp add: unfold click_target_def bind_def modify_def get_def)
      have "same_position t ?t" by (simp add: same_position_def toggle_random_move_def)
      from same_position_trans [OF this rest [of ?t "previous ?t"]]
      show ?thesis unfolding Some eq using m by simp
    qed
  qed
qed

lemma same_position_tail:
  "keeps same_position (bind (random_sleep env) (\<lambda>u. call EnsureFuture (ensure_future env)))"
  by (intro same_position_intros same_position_random_sleep) simp_all

lemma random_move_unfold:
  "random_move env s
     = except_all
         (bind (if \<not> moving s then random_step env else return ()) (\<lambda>u.
          bind (random_sleep env) (\<lambda>u. call EnsureFuture (ensure_future env))))
         (modify (logger_debug ''Warning: stopping random mouse movements'')) s"
  by (simp add: random_move_def random_move_body_def bind_def [of "get moving"] get_def
      except_all_def)

lemma random_move_busy:
  assumes "moving s"
  shows "same_position s (snd (random_move env s))"
proof -
  have "keeps same_position
      (except_all
         (bind (return ()) (\<lambda>u.
          bind (random_sleep env) (\<lambda>u. call EnsureFuture (ensure_future env))))
         (modify (logger_debug ''Warning: stopping random mouse movements'')))"
    by (intro same_position_intros same_position_random_sleep) simp_all
  from keeps_snd [OF this, of s] assms show ?thesis by (simp add: random_move_unfold)
qed

lemma random_step_returns:
  assumes "random_step env s = (Inr (), t)"
  shows "\<exists>rand t0. get_random_page_point env s = (Inr rand, t0) \<and> previous t = rand"
proof -
  from assms [unfolded random_step_def] obtain rand t0 where
    g: "get_random_page_point env s = (Inr rand, t0)"
    and 1: "bind (get previous) (\<lambda>start.
     bind (draw (path env start (ToVector rand) None)) (\<lambda>vectors.
     bind (trace_path env vectors True) (\<lambda>u.
       modify (\<lambda>s. s\<lparr>previous := rand\<rparr>)))) t0 = (Inr (), t)"
    by (rule bind_returns)
  from 1 obtain start t1 where
    2: "bind (draw (path env start (ToVector rand) None)) (\<lambda>vectors.
     bind (trace_path env vectors True) (\<lambda>u.
       modify (\<lambda>s. s\<lparr>previous := rand\<rparr>))) t1 = (Inr (), t)"
    by (rule bind_returns)
  from 2 obtain vectors t2 where
    3: "bind (trace_path env vectors True) (\<lambda>u.
       modify (\<lambda>s. s\<lparr>previous := rand\<rparr>)) t2 = (Inr (), t)"
    by (rule bind_returns)
  from 3 obtain u t3 where "modify (\<lambda>s. s\<lparr>previous := rand\<rparr>) t3 = (Inr (), t)"
    by (rule bind_returns)
  then have "previous t = rand" by (auto simp: modify_def)
  with g show ?thesis by blast
qed

lemma random_move_sampled:
  assumes "\<not> moving s" and "random_step env s = (Inr (), t)"
  shows "\<exists>rand t0. get_random_page_point env s = (Inr rand, t0)
           \<and> previous (snd (random_move env s)) = rand"
proof -
  have k: "keeps same_position
      (except_all (bind (random_sleep env) (\<lambda>u. call EnsureFuture (ensure_future env)))
         (modify (logger_debug ''Warning: stopping random mouse movements'')))"
    by (intro same_position_intros same_position_random_sleep) simp_all
  have "random_move env s
      = except_all (bind (random_sleep env) (\<lambda>u. call EnsureFuture (ensure_future env)))
         (modify (logger_debug ''Warning: stopping random mouse movements'')) t"
    using assms by (simp add: random_move_unfold except_all_def bind_def [of "random_step env"])
  with keeps_snd [OF k, of t] have "previous (snd (random_move env s)) = previous t"
    by (simp add: same_position_def)
  with random_step_returns [OF assms(2)] show ?thesis by simp
qed

lemma random_move_raised:
  assumes "\<not> moving s" and "random_step env s = (Inl e, t)"
  shows "tracks s (snd (random_move env s))"
proof -
  from raisingD [OF raising_random_step assms(2)] have 1: "tracks s t" .
  have "snd (random_move env s) = logger_debug ''Warning: stopping random mouse movements'' t"
    using assms by (simp add: random_move_unfold except_all_def bind_def modify_def)
  moreover have "tracks t (logger_debug ''Warning: stopping random mouse movements'' t)"
    by (simp add: tracks_def logger_debug_def)
  ultimately show ?thesis using tracks_trans [OF 1] by simp
qed

text \<open>The definitions a run on given collaborators unfolds.\<close>

lemmas run_defs = demo_env_def demo_cursor_def GhostCursor_init_def origin_def
  demo_box_def demo_point_def call_def await_def draw_def logger_debug_def bind_def
  return_def raise_def get_def modify_def except_Exception_def except_all_def
  get_cdp_session_def get_random_page_point_def move_to_def random_move_body_def random_move_def
  toggle_random_move_def detect_mobile_def trace_step_def move_def resolve_box_def find_element_def
  move_to_box_def press_def random_sleep_def click_def click_target_def truthy_def compute_def
  random_step_def demo_truediv_def number_value_def is_int_def

section \<open>The claims\<close>

text \<open>
  C1 (as the code has it). When \<^verbatim>\<open>mouse.move\<close> fails on a point with an
  \<^verbatim>\<open>Exception\<close> and \<^verbatim>\<open>is_connected\<close> returns true, the failure is logged and
  \<^verbatim>\<open>trace_path\<close> goes on with the points that remain; when it returns false,
  \<^verbatim>\<open>trace_path\<close> returns there, with no further call. With a mouse that fails only
  with an \<^verbatim>\<open>Exception\<close>, after which \<^verbatim>\<open>is_connected\<close> returns, no exception leaves
  \<^verbatim>\<open>trace_path\<close>. When \<^verbatim>\<open>is_connected\<close> returns true after every failure of the
  mouse, \<^verbatim>\<open>trace_path\<close> returns and every point of the path was tried, in order; when
  it returns false after every failure, the points tried are a prefix of the path, of which
  at most the last was not dispatched.
\<close>

theorem trace_path_dispatch_failure:
  "(\<not> (ab \<and> moving s)
      \<and> await env (MouseMove v) (mouse_move env v) s = (Inl (Exception msg), s1)
      \<and> await env IsConnected (browser_is_connected env) s1 = (Inr c, s2)
     \<longrightarrow> trace_path env (v # vs) ab s =
          (if c then trace_path env vs ab
                       (logger_debug (''Warning: could not move mouse, error message: '' @ msg) s2)
           else (Inr (), s2)))
   \<and> (transient env \<longrightarrow> fst (trace_path env vs ab s) = Inr ())
   \<and> (goes_on env
        \<longrightarrow> fst (trace_path env vs False s) = Inr ()
            \<and> attempted (history (snd (trace_path env vs False s))) = attempted (history s) @ vs)
   \<and> (gives_up env
        \<longrightarrow> (\<exists>ds rest.
               dispatched (history (snd (trace_path env vs ab s))) = dispatched (history s) @ ds
               \<and> attempted (history (snd (trace_path env vs ab s)))
                   = attempted (history s) @ ds @ rest
               \<and> length rest \<le> 1 \<and> prefix (ds @ rest) vs))"
proof (intro conjI impI)
  assume a: "\<not> (ab \<and> moving s)
      \<and> await env (MouseMove v) (mouse_move env v) s = (Inl (Exception msg), s1)
      \<and> await env IsConnected (browser_is_connected env) s1 = (Inr c, s2)"
  then have "trace_step env v ab s =
      (if c then (Inr Continue, logger_debug (''Warning: could not move mouse, error message: '' @ msg) s2)
       else (Inr Return, s2))"
    by (auto simp: trace_step_def)
  then show "trace_path env (v # vs) ab s =
          (if c then trace_path env vs ab
                       (logger_debug (''Warning: could not move mouse, error message: '' @ msg) s2)
           else (Inr (), s2))"
    by simp
next
  assume "transient env"
  then show "fst (trace_path env vs ab s) = Inr ()" by (rule trace_path_transient)
next
  assume "goes_on env"
  from trace_path_goes_on [OF this, of vs s]
  show "fst (trace_path env vs False s) = Inr ()"
    and "attempted (history (snd (trace_path env vs False s))) = attempted (history s) @ vs"
    by simp_all
next
  assume "gives_up env"
  then show "\<exists>ds rest.
               dispatched (history (snd (trace_path env vs ab s))) = dispatched (history s) @ ds
               \<and> attempted (history (snd (trace_path env vs ab s)))
                   = attempted (history s) @ ds @ rest
               \<and> length rest \<le> 1 \<and> prefix (ds @ rest) vs"
    using trace_path_disconnected by blast
qed

theorem trace_path_dispatch_failure_witness:
  "trace_path first_move_fails (Vector 1 1 # [Vector 2 2, Vector 3 3]) False demo_cursor
     = trace_path first_move_fails [Vector 2 2, Vector 3 3] False
         (demo_cursor\<lparr>page := 1,
            history := [Call (MouseMove (Vector 1 1)) False, Call IsConnected True,
              Log ''Warning: could not move mouse, error message: Target closed'']\<rparr>)
   \<and> fst (trace_path first_move_fails [Vector 1 1, Vector 2 2, Vector 3 3] False demo_cursor)
       = Inr ()
   \<and> attempted (history (snd (trace_path first_move_fails [Vector 1 1, Vector 2 2, Vector 3 3]
         False demo_cursor))) = [Vector 1 1, Vector 2 2, Vector 3 3]
   \<and> (\<exists>ds rest.
         dispatched (history (snd (trace_path disconnected_env
             [Vector 1 1, Vector 2 2, Vector 3 3] False demo_cursor))) = ds
         \<and> attempted (history (snd (trace_path disconnected_env
             [Vector 1 1, Vector 2 2, Vector 3 3] False demo_cursor))) = ds @ rest
         \<and> length rest \<le> 1 \<and> prefix (ds @ rest) [Vector 1 1, Vector 2 2, Vector 3 3])
   \<and> fst (trace_path disconnected_env [Vector 1 1, Vector 2 2, Vector 3 3] False demo_cursor)
       = Inr ()"
proof -
  let ?s1 = "demo_cursor\<lparr>page := 1, history := [Call (MouseMove (Vector 1 1)) False]\<rparr>"
  let ?s2 = "demo_cursor\<lparr>page := 1,
    history := [Call (MouseMove (Vector 1 1)) False, Call IsConnected True]\<rparr>"
  have idle: "\<not> (False \<and> moving demo_cursor)" by simp
  have a1: "await first_move_fails (MouseMove (Vector 1 1))
      (mouse_move first_move_fails (Vector 1 1)) demo_cursor
      = (Inl (Exception ''Target closed''), ?s1)"
    by (simp add: first_move_fails_def run_defs)
  have a2: "await first_move_fails IsConnected (browser_is_connected first_move_fails) ?s1
      = (Inr True, ?s2)"
    by (simp add: first_move_fails_def run_defs)
  have c1: "goes_on first_move_fails"
    by (simp add: goes_on_def first_move_fails_def demo_env_def)
  have t2: "transient disconnected_env"
    by (simp add: transient_def disconnected_env_def every_move_fails_def demo_env_def)
  have c2: "gives_up disconnected_env"
    by (simp add: gives_up_def disconnected_env_def every_move_fails_def demo_env_def)
  have l: "logger_debug (''Warning: could not move mouse, error message: '' @ ''Target closed'') ?s2
      = demo_cursor\<lparr>page := 1,
            history := [Call (MouseMove (Vector 1 1)) False, Call IsConnected True,
              Log ''Warning: could not move mouse, error message: Target closed'']\<rparr>"
    by (simp add: logger_debug_def demo_cursor_def GhostCursor_init_def)
  have h0: "history demo_cursor = []" by (simp add: demo_cursor_def GhostCursor_init_def)
  note w1 = trace_path_dispatch_failure [where ab = False and s = demo_cursor
      and env = first_move_fails and v = "Vector 1 1" and msg = "''Target closed''"
      and ?s1.0 = ?s1 and c = True and ?s2.0 = ?s2 and vs = "[Vector 2 2, Vector 3 3]"]
  note w2 = trace_path_dispatch_failure [where ab = False and s = demo_cursor
      and env = first_move_fails and vs = "[Vector 1 1, Vector 2 2, Vector 3 3]"]
  note w3 = trace_path_dispatch_failure [where ab = False and s = demo_cursor
      and env = disconnected_env and vs = "[Vector 1 1, Vector 2 2, Vector 3 3]"]
  from w1 idle a1 a2 l
  have p1: "trace_path first_move_fails (Vector 1 1 # [Vector 2 2, Vector 3 3]) False demo_cursor
     = trace_path first_move_fails [Vector 2 2, Vector 3 3] False
         (demo_cursor\<lparr>page := 1,
            history := [Call (MouseMove (Vector 1 1)) False, Call IsConnected True,
              Log ''Warning: could not move mouse, error message: Target closed'']\<rparr>)"
    by simp
  from w2 c1 h0
  have p2: "fst (trace_path first_move_fails [Vector 1 1, Vector 2 2, Vector 3 3] False
       demo_cursor) = Inr ()"
    and p3: "attempted (history (snd (trace_path first_move_fails
       [Vector 1 1, Vector 2 2, Vector 3 3] False demo_cursor)))
       = [Vector 1 1, Vector 2 2, Vector 3 3]"
    by simp_all
  from w3 t2
  have p5: "fst (trace_path disconnected_env [Vector 1 1, Vector 2 2, Vector 3 3] False
       demo_cursor) = Inr ()"
    by blast
  from w3 c2 h0
  have p4: "\<exists>ds rest.
         dispatched (history (snd (trace_path disconnected_env
             [Vector 1 1, Vector 2 2, Vector 3 3] False demo_cursor))) = ds
         \<and> attempted (history (snd (trace_path disconnected_env
             [Vector 1 1, Vector 2 2, Vector 3 3] False demo_cursor))) = ds @ rest
         \<and> length rest \<le> 1 \<and> prefix (ds @ rest) [Vector 1 1, Vector 2 2, Vector 3 3]"
    by simp
  from p1 p2 p3 p4 p5 show ?thesis by blast
qed

text \<open>C1 as the claim has it fails. The first move raises on a connected browser, and the
  two points that remain are dispatched all the same. On a disconnected browser the first
  trace of a \<^verbatim>\<open>move\<close> returns at its first point, and \<^verbatim>\<open>move\<close> goes on: it starts
  the correction trace, which calls \<^verbatim>\<open>mouse.move\<close> again, records the destination,
  clears the flag and returns.\<close>

theorem trace_path_stops_early_counterexample:
  "trace_path first_move_fails [Vector 1 1, Vector 2 2, Vector 3 3] False demo_cursor
     = (Inr (), demo_cursor\<lparr>page := 3, previous := Vector 3 3,
          history := [Call (MouseMove (Vector 1 1)) False, Call IsConnected True,
            Log ''Warning: could not move mouse, error message: Target closed'',
            Call (MouseMove (Vector 2 2)) True, Call (MouseMove (Vector 3 3)) True]\<rparr>)
   \<and> move disconnected_env (Handle (ElementHandle 1)) None None demo_cursor
     = (Inr (), demo_cursor\<lparr>page := 2, previous := Vector 1006 1006,
          history := [Call (ScrollIntoView (ElementHandle 1)) True,
            Call (BoundingBox (ElementHandle 1)) True,
            Call (MouseMove (Vector 0 0)) False, Call IsConnected True,
            Call (MouseMove (Vector 1126 1006)) False, Call IsConnected True]\<rparr>)"
  by (simp add: first_move_fails_def disconnected_env_def every_move_fails_def run_defs)

text \<open>
  C4. When \<^verbatim>\<open>trace_path\<close> is called with \<^verbatim>\<open>abort_on_move\<close> set and the flag
  \<^verbatim>\<open>moving\<close> is true when the loop reaches a vector, the function returns there without
  an error: \<^verbatim>\<open>mouse.move\<close> was called with the vectors before that position and with no
  other, so the points dispatched are among those before it, in their order.
\<close>

theorem trace_path_abort_on_move:
  assumes "loop_head env pre True s = Some t" and "moving t"
  shows "trace_path env (pre @ v # post) True s = (Inr (), t)
    \<and> attempted (history t) = attempted (history s) @ pre
    \<and> (\<exists>ds. dispatched (history t) = dispatched (history s) @ ds \<and> subseq ds pre)"
proof -
  from assms(2) have "trace_step env v True t = (Inr Return, t)"
    by (simp add: trace_step_def)
  then have "trace_path env (v # post) True t = (Inr (), t)" by simp
  with loop_head_append [OF assms(1)] have "trace_path env (pre @ v # post) True s = (Inr (), t)"
    by simp
  moreover from trace_path_previous [OF loop_head_trace_path [OF assms(1)]]
  have "\<exists>ds. dispatched (history t) = dispatched (history s) @ ds \<and> subseq ds pre" by blast
  ultimately show ?thesis using loop_head_attempted [OF assms(1)] by blast
qed

theorem trace_path_abort_on_move_witness:
  "trace_path interrupted_env ([Vector 1 1, Vector 2 2] @ Vector 3 3 # [Vector 4 4]) True demo_cursor
     = (Inr (), demo_cursor\<lparr>page := 2, previous := Vector 2 2, moving := True,
          history := [Call (MouseMove (Vector 1 1)) True, Call (MouseMove (Vector 2 2)) True]\<rparr>)"
proof -
  let ?t = "demo_cursor\<lparr>page := 2, previous := Vector 2 2, moving := True,
          history := [Call (MouseMove (Vector 1 1)) True, Call (MouseMove (Vector 2 2)) True]\<rparr>"
  have h: "loop_head interrupted_env [Vector 1 1, Vector 2 2] True demo_cursor = Some ?t"
    by (simp add: interrupted_env_def run_defs)
  have m: "moving ?t" by simp
  from trace_path_abort_on_move [OF h m, of "Vector 3 3" "[Vector 4 4]"] show ?thesis by simp
qed

text \<open>
  C7 (as the code has it). \<^verbatim>\<open>random_move\<close> never raises. Whatever is raised in its
  \<^verbatim>\<open>try\<close> block is caught: the warning is logged and the next run has not been put on
  the event loop; a failure of the sampling of the point is raised in the block. When the
  block returns, the handler is not entered, so the warning is not logged, and exactly one
  next run has been put on the event loop. The block returns when \<^verbatim>\<open>mouse.move\<close> fails at most
  with an \<^verbatim>\<open>Exception\<close> after which \<^verbatim>\<open>is_connected\<close> returns, the sleep and
  \<^verbatim>\<open>ensure_future\<close> return, and the sampling returns or the flag is set: a dispatch
  that fails so does not end the loop.
\<close>

theorem random_move_never_raises:
  "fst (random_move env s) = Inr ()
   \<and> (\<forall>exc t. random_move_body env s = (Inl exc, t) \<longrightarrow>
        history (snd (random_move env s))
          = history t @ [Log ''Warning: stopping random mouse movements'']
        \<and> scheduled (history (snd (random_move env s))) = scheduled (history s))
   \<and> (is_ok (fst (random_move_body env s)) \<longrightarrow>
        random_move env s = random_move_body env s
        \<and> scheduled (history (snd (random_move env s))) = Suc (scheduled (history s)))
   \<and> (transient env \<and> (moving s \<or> is_ok (fst (get_random_page_point env s)))
        \<and> (\<forall>d w. is_ok (fst (sleep env d w))) \<and> (\<forall>w. is_ok (fst (ensure_future env w)))
      \<longrightarrow> is_ok (fst (random_move_body env s)))
   \<and> (\<forall>e t. \<not> moving s \<and> get_random_page_point env s = (Inl e, t) \<longrightarrow>
        random_move_body env s = (Inl e, t))"
proof (intro conjI allI impI)
  show "fst (random_move env s) = Inr ()"
    by (auto simp: random_move_def except_all_def modify_def split: prod.splits sum.splits)
next
  fix exc t
  assume b: "random_move_body env s = (Inl exc, t)"
  then show "history (snd (random_move env s))
          = history t @ [Log ''Warning: stopping random mouse movements'']"
    by (simp add: random_move_def except_all_def modify_def logger_debug_def)
  from b have h: "scheduled (history (snd (random_move env s))) = scheduled (history t)"
    by (simp add: random_move_def except_all_def modify_def logger_debug_def scheduled_def)
  from b have "scheduled (history t) = scheduled (history s)"
  proof (cases rule: random_move_body_split)
    case (before e)
    then show ?thesis by simp
  next
    case (at_call u)
    from call_fields(3) [OF at_call(2)] at_call(1) show ?thesis
      by (simp add: scheduled_def)
  qed
  with h show "scheduled (history (snd (random_move env s))) = scheduled (history s)" by simp
next
  assume ok: "is_ok (fst (random_move_body env s))"
  obtain r t where b: "random_move_body env s = (r, t)" by (cases "random_move_body env s")
  with ok obtain u where r: "r = Inr u" by (cases r) simp_all
  from b r show same: "random_move env s = random_move_body env s"
    by (simp add: random_move_def except_all_def)
  from b have "scheduled (history t) = Suc (scheduled (history s))"
  proof (cases rule: random_move_body_split)
    case (before e)
    with r show ?thesis by simp
  next
    case (at_call u)
    from call_fields(3) [OF at_call(2)] at_call(1) r show ?thesis
      by (simp add: scheduled_def)
  qed
  with same b show "scheduled (history (snd (random_move env s))) = Suc (scheduled (history s))"
    by simp
next
  assume "transient env \<and> (moving s \<or> is_ok (fst (get_random_page_point env s)))
        \<and> (\<forall>d w. is_ok (fst (sleep env d w))) \<and> (\<forall>w. is_ok (fst (ensure_future env w)))"
  then show "is_ok (fst (random_move_body env s))"
    using random_move_body_ok by blast
next
  fix e t
  assume "\<not> moving s \<and> get_random_page_point env s = (Inl e, t)"
  then show "random_move_body env s = (Inl e, t)"
    using random_move_body_sampling by blast
qed

theorem random_move_never_raises_witness:
  "get_random_page_point no_target_env demo_cursor
     = (Inl (Exception ''AttributeError''), demo_cursor\<lparr>history := [Call TargetId False]\<rparr>)
   \<and> random_move_body no_target_env demo_cursor
     = (Inl (Exception ''AttributeError''), demo_cursor\<lparr>history := [Call TargetId False]\<rparr>)
   \<and> fst (random_move no_target_env demo_cursor) = Inr ()
   \<and> history (snd (random_move no_target_env demo_cursor))
       = [Call TargetId False, Log ''Warning: stopping random mouse movements'']
   \<and> scheduled (history (snd (random_move no_target_env demo_cursor))) = 0
   \<and> is_ok (fst (random_move_body every_move_fails demo_cursor))
   \<and> random_move every_move_fails demo_cursor = random_move_body every_move_fails demo_cursor
   \<and> scheduled (history (snd (random_move every_move_fails demo_cursor))) = 1"
proof -
  have g: "get_random_page_point no_target_env demo_cursor
     = (Inl (Exception ''AttributeError''), demo_cursor\<lparr>history := [Call TargetId False]\<rparr>)"
    by (simp add: no_target_env_def run_defs)
  have idle: "\<not> moving demo_cursor" by (simp add: demo_cursor_def GhostCursor_init_def)
  have h0: "scheduled (history demo_cursor) = 0"
    by (simp add: scheduled_def demo_cursor_def GhostCursor_init_def)
  have c: "transient every_move_fails
      \<and> (moving demo_cursor \<or> is_ok (fst (get_random_page_point every_move_fails demo_cursor)))
      \<and> (\<forall>d w. is_ok (fst (sleep every_move_fails d w)))
      \<and> (\<forall>w. is_ok (fst (ensure_future every_move_fails w)))"
    by (simp add: transient_def every_move_fails_def run_defs)
  note a = random_move_never_raises [of no_target_env demo_cursor]
  note b = random_move_never_raises [of every_move_fails demo_cursor]
  from a g idle
  have 0: "random_move_body no_target_env demo_cursor
     = (Inl (Exception ''AttributeError''), demo_cursor\<lparr>history := [Call TargetId False]\<rparr>)"
    by blast
  from a 0 h0
  have 1: "fst (random_move no_target_env demo_cursor) = Inr ()"
    and 2: "history (snd (random_move no_target_env demo_cursor))
       = [Call TargetId False, Log ''Warning: stopping random mouse movements'']"
    and 3: "scheduled (history (snd (random_move no_target_env demo_cursor))) = 0"
    by (simp_all add: scheduled_def)
  from b c have 4: "is_ok (fst (random_move_body every_move_fails demo_cursor))" by blast
  from b 4
  have 5: "random_move every_move_fails demo_cursor = random_move_body every_move_fails demo_cursor"
    and "scheduled (history (snd (random_move every_move_fails demo_cursor)))
      = Suc (scheduled (history demo_cursor))"
    by blast+
  with h0 have 6: "scheduled (history (snd (random_move every_move_fails demo_cursor))) = 1"
    by simp
  from g 0 1 2 3 4 5 6 show ?thesis by blast
qed

text \<open>C7 as the claim has it fails: every dispatch of the trace fails, \<^verbatim>\<open>trace_path\<close>
  handles the failures itself, on a connected browser and on a disconnected one, and
  \<^verbatim>\<open>random_move\<close> sleeps and puts its next run on the event loop, without the warning
  that it stops.\<close>

theorem dispatch_failure_rescheduled_counterexample:
  "random_move every_move_fails demo_cursor
     = (Inr (), demo_cursor\<lparr>page := 2, previous := Vector 600 450,
          cdp_session := Some (CDPSession 0),
          history := [Call TargetId True, Call NewCdpSession True, Call GetWindowForTarget True,
            Call (MouseMove (Vector 0 0)) False, Call IsConnected True,
            Log ''Warning: could not move mouse, error message: Target closed'',
            Call (MouseMove (Vector 600 450)) False, Call IsConnected True,
            Log ''Warning: could not move mouse, error message: Target closed'',
            Call (Sleep 1) True, Call EnsureFuture True]\<rparr>)
   \<and> random_move disconnected_env demo_cursor
     = (Inr (), demo_cursor\<lparr>page := 1, previous := Vector 600 450,
          cdp_session := Some (CDPSession 0),
          history := [Call TargetId True, Call NewCdpSession True, Call GetWindowForTarget True,
            Call (MouseMove (Vector 0 0)) False, Call IsConnected True,
            Call (Sleep 1) True, Call EnsureFuture True]\<rparr>)"
  by (simp add: disconnected_env_def every_move_fails_def run_defs)

text \<open>
  C9. \<^verbatim>\<open>create_cursor\<close> takes a starting position, the origin \<open>(0,0)\<close> when it is
  left out, and returns a controller whose recorded position is that start, which is idle
  and has not yet asked whether the surface is touch-capable.
\<close>

theorem create_cursor_position:
  "create_cursor pg None = Inr (GhostCursor_init pg (Vector 0 0))
   \<and> create_cursor pg (Some (StartVector v)) = Inr (GhostCursor_init pg v)
   \<and> create_cursor pg (Some (StartDict [(''x'', a), (''y'', b)]))
       = Inr (GhostCursor_init pg (Vector a b))
   \<and> previous (GhostCursor_init pg v) = v
   \<and> \<not> moving (GhostCursor_init pg v)
   \<and> page (GhostCursor_init pg v) = pg
   \<and> is_mobile (GhostCursor_init pg v) = None"
  by (simp add: create_cursor_def Vector_of_dict_def GhostCursor_init_def origin_def)

theorem create_cursor_position_witness:
  "create_cursor (0::nat) None = Inr (GhostCursor_init 0 (Vector 0 0))
   \<and> create_cursor (0::nat) (Some (StartDict [(''x'', 3), (''y'', 4)]))
       = Inr (GhostCursor_init 0 (Vector 3 4))
   \<and> previous (GhostCursor_init (0::nat) (Vector 5 6)) = Vector 5 6"
  using create_cursor_position [of "0::nat" "Vector 5 6" 3 4] by simp

text \<open>
  C6. When the resolution of the target raises, \<^verbatim>\<open>move\<close> raises the same error in
  the state the resolution has left, and \<^verbatim>\<open>mouse.move\<close> has not been called. When the
  selector is a string and \<^verbatim>\<open>query_selector\<close> returns \<^verbatim>\<open>None\<close> for it, after the
  wait for the selector has returned if there was one, \<^verbatim>\<open>move\<close> raises the error of
  line 146; when the element has been found and scrolled into view and \<^verbatim>\<open>bounding_box\<close>
  returns \<^verbatim>\<open>None\<close> for it, \<^verbatim>\<open>move\<close> raises the error of line 158; in both cases
  \<^verbatim>\<open>mouse.move\<close> has not been called. On a page where \<^verbatim>\<open>query_selector\<close> never
  finds the selector, and on one where no element has a bounding box, \<^verbatim>\<open>move\<close> raises,
  whatever the other calls do, and \<^verbatim>\<open>mouse.move\<close> has not been called.
\<close>

theorem move_unresolved:
  "(\<forall>e t. resolve_box env sel wait s = (Inl e, t) \<longrightarrow>
        move env sel pad wait s = (Inl e, t) \<and> attempted (history t) = attempted (history s))
   \<and> (\<forall>t. (if truthy wait then await env (WaitForSelector name (the wait))
                                   (wait_for_selector env name (the wait))
             else return ()) (toggle_random_move False s) = (Inr (), t)
          \<and> fst (query_selector env name (page t)) = Inr None \<longrightarrow>
        fst (move env (Str name) pad wait s) = Inl (Exception (not_found_message name))
        \<and> attempted (history (snd (move env (Str name) pad wait s))) = attempted (history s))
   \<and> (\<forall>elem t1 u t2.
          find_element env sel wait (toggle_random_move False s) = (Inr elem, t1)
          \<and> await env (ScrollIntoView elem) (scroll_into_view_if_needed env elem) t1 = (Inr u, t2)
          \<and> fst (bounding_box env elem (page t2)) = Inr None \<longrightarrow>
        fst (move env sel pad wait s) = Inl (Exception no_dimensions_message)
        \<and> attempted (history (snd (move env sel pad wait s))) = attempted (history s))
   \<and> ((\<forall>w. fst (query_selector env name w) = Inr None) \<longrightarrow>
       \<not> is_ok (fst (move env (Str name) pad wait s))
       \<and> attempted (history (snd (move env (Str name) pad wait s))) = attempted (history s))
   \<and> ((\<forall>elem w. fst (bounding_box env elem w) = Inr None) \<longrightarrow>
       \<not> is_ok (fst (move env sel pad wait s))
       \<and> attempted (history (snd (move env sel pad wait s))) = attempted (history s))"
proof (intro conjI allI impI)
  fix e t
  assume r: "resolve_box env sel wait s = (Inl e, t)"
  from resolve_raises_move [OF r] show "move env sel pad wait s = (Inl e, t)" .
  from resolve_attempted [OF r] show "attempted (history t) = attempted (history s)" .
next
  fix t
  assume a: "(if truthy wait then await env (WaitForSelector name (the wait))
                                   (wait_for_selector env name (the wait))
             else return ()) (toggle_random_move False s) = (Inr (), t)
          \<and> fst (query_selector env name (page t)) = Inr None"
  then have a1: "(if truthy wait then await env (WaitForSelector name (the wait))
                                   (wait_for_selector env name (the wait))
             else return ()) (toggle_random_move False s) = (Inr (), t)"
    and a2: "fst (query_selector env name (page t)) = Inr None" by simp_all
  from resolve_box_not_found [OF a1 a2] obtain t' where
    r: "resolve_box env (Str name) wait s = (Inl (Exception (not_found_message name)), t')"
    by blast
  note m = resolve_raises_move [OF r, of pad]
  from m show "fst (move env (Str name) pad wait s) = Inl (Exception (not_found_message name))"
    by simp
  from m resolve_attempted [OF r]
  show "attempted (history (snd (move env (Str name) pad wait s))) = attempted (history s)"
    by simp
next
  fix elem t1 u t2
  assume a: "find_element env sel wait (toggle_random_move False s) = (Inr elem, t1)
          \<and> await env (ScrollIntoView elem) (scroll_into_view_if_needed env elem) t1 = (Inr u, t2)
          \<and> fst (bounding_box env elem (page t2)) = Inr None"
  then have a1: "find_element env sel wait (toggle_random_move False s) = (Inr elem, t1)"
    and a2: "await env (ScrollIntoView elem) (scroll_into_view_if_needed env elem) t1
      = (Inr u, t2)"
    and a3: "fst (bounding_box env elem (page t2)) = Inr None" by simp_all
  from resolve_box_no_box [OF a1 a2 a3] obtain t' where
    r: "resolve_box env sel wait s = (Inl (Exception no_dimensions_message), t')" by blast
  note m = resolve_raises_move [OF r, of pad]
  from m show "fst (move env sel pad wait s) = Inl (Exception no_dimensions_message)" by simp
  from m resolve_attempted [OF r]
  show "attempted (history (snd (move env sel pad wait s))) = attempted (history s)" by simp
next
  assume a: "\<forall>w. fst (query_selector env name w) = Inr None"
  from resolve_box_missing [OF a, of wait s] obtain e t where
    r: "resolve_box env (Str name) wait s = (Inl e, t)" by blast
  note m = resolve_raises_move [OF r, of pad]
  from m show "\<not> is_ok (fst (move env (Str name) pad wait s))" by simp
  from m resolve_attempted [OF r]
  show "attempted (history (snd (move env (Str name) pad wait s))) = attempted (history s)"
    by simp
next
  assume a: "\<forall>elem w. fst (bounding_box env elem w) = Inr None"
  from resolve_box_no_dimensions [OF a, of sel wait s] obtain e t where
    r: "resolve_box env sel wait s = (Inl e, t)" by blast
  note m = resolve_raises_move [OF r, of pad]
  from m show "\<not> is_ok (fst (move env sel pad wait s))" by simp
  from m resolve_attempted [OF r]
  show "attempted (history (snd (move env sel pad wait s))) = attempted (history s)" by simp
qed

theorem move_unresolved_witness:
  "move demo_env (Str ''#missing'') None (Some 500) demo_cursor
     = (Inl (Exception (not_found_message ''#missing'')),
        demo_cursor\<lparr>moving := True,
          history := [Call (WaitForSelector ''#missing'' 500) True,
                      Call (QuerySelector ''#missing'') True]\<rparr>)
   \<and> fst (move demo_env (Str ''#missing'') None None demo_cursor)
       = Inl (Exception (not_found_message ''#missing''))
   \<and> attempted (history (snd (move demo_env (Str ''#missing'') None None demo_cursor))) = []
   \<and> fst (move hidden_button_env (Str ''#button'') None None demo_cursor)
       = Inl (Exception no_dimensions_message)
   \<and> attempted (history (snd (move hidden_button_env (Str ''#button'') None None demo_cursor)))
       = []
   \<and> \<not> is_ok (fst (move no_box_env (Handle (ElementHandle 1)) None None demo_cursor))
   \<and> attempted (history (snd (move no_box_env (Handle (ElementHandle 1)) None None
        demo_cursor))) = []
   \<and> \<not> is_ok (fst (move demo_env (Str ''#missing'') (Some (1 / 10)) (Some 500) demo_cursor))"
proof -
  let ?s0 = "toggle_random_move False demo_cursor"
  let ?t = "demo_cursor\<lparr>moving := True,
          history := [Call (WaitForSelector ''#missing'' 500) True,
                      Call (QuerySelector ''#missing'') True]\<rparr>"
  let ?t1 = "demo_cursor\<lparr>moving := True,
          history := [Call (QuerySelector ''#button'') True]\<rparr>"
  let ?t2 = "demo_cursor\<lparr>moving := True,
          history := [Call (QuerySelector ''#button'') True,
                      Call (ScrollIntoView (ElementHandle 1)) True]\<rparr>"
  have r: "resolve_box demo_env (Str ''#missing'') (Some 500) demo_cursor
      = (Inl (Exception (not_found_message ''#missing'')), ?t)"
    by (simp add: run_defs)
  have w: "(if truthy None then await demo_env (WaitForSelector ''#missing'' (the None))
                                   (wait_for_selector demo_env ''#missing'' (the None))
             else return ()) ?s0 = (Inr (), ?s0)
          \<and> fst (query_selector demo_env ''#missing'' (page ?s0)) = Inr None"
    by (simp add: truthy_def return_def demo_env_def)
  have f: "find_element hidden_button_env (Str ''#button'') None ?s0 = (Inr (ElementHandle 1), ?t1)
          \<and> await hidden_button_env (ScrollIntoView (ElementHandle 1))
               (scroll_into_view_if_needed hidden_button_env (ElementHandle 1)) ?t1
              = (Inr (), ?t2)
          \<and> fst (bounding_box hidden_button_env (ElementHandle 1) (page ?t2)) = Inr None"
    by (simp add: hidden_button_env_def run_defs)
  have q: "\<forall>w. fst (query_selector demo_env ''#missing'' w) = Inr None"
    by (simp add: demo_env_def)
  have b: "\<forall>elem w. fst (bounding_box no_box_env elem w) = Inr None"
    by (simp add: no_box_env_def demo_env_def)
  have h0: "attempted (history demo_cursor) = []"
    by (simp add: demo_cursor_def GhostCursor_init_def)
  from move_unresolved [where env = demo_env and sel = "Str ''#missing''" and pad = None
      and wait = "Some 500" and s = demo_cursor] r
  have 1: "move demo_env (Str ''#missing'') None (Some 500) demo_cursor
     = (Inl (Exception (not_found_message ''#missing'')), ?t)"
    by blast
  from move_unresolved [where env = demo_env and name = "''#missing''" and pad = None
      and wait = None and s = demo_cursor] w h0
  have 2: "fst (move demo_env (Str ''#missing'') None None demo_cursor)
       = Inl (Exception (not_found_message ''#missing''))"
    and 3: "attempted (history (snd (move demo_env (Str ''#missing'') None None demo_cursor)))
       = []"
    by simp_all
  from move_unresolved [where env = hidden_button_env and sel = "Str ''#button''"
      and pad = None and wait = None and s = demo_cursor] f h0
  have 4: "fst (move hidden_button_env (Str ''#button'') None None demo_cursor)
       = Inl (Exception no_dimensions_message)"
    and 5: "attempted (history (snd (move hidden_button_env (Str ''#button'') None None
       demo_cursor))) = []"
    by simp_all
  from move_unresolved [where env = no_box_env and sel = "Handle (ElementHandle 1)"
      and pad = None and wait = None and s = demo_cursor] b h0
  have 6: "\<not> is_ok (fst (move no_box_env (Handle (ElementHandle 1)) None None demo_cursor))"
    and 7: "attempted (history (snd (move no_box_env (Handle (ElementHandle 1)) None None
        demo_cursor))) = []"
    by simp_all
  from move_unresolved [where env = demo_env and name = "''#missing''" and pad = "Some (1 / 10)"
      and wait = "Some 500" and s = demo_cursor] q
  have 8: "\<not> is_ok (fst (move demo_env (Str ''#missing'') (Some (1 / 10)) (Some 500)
      demo_cursor))"
    by blast
  from 1 2 3 4 5 6 7 8 show ?thesis by blast
qed

text \<open>
  C2 (as the code has it). When \<^verbatim>\<open>move\<close>, \<^verbatim>\<open>click\<close> or \<^verbatim>\<open>move_to\<close> returns, the
  flag \<^verbatim>\<open>moving\<close> is false. When one of them raises, nothing clears the flag: if no
  other task touches it, it is true after a \<^verbatim>\<open>move\<close> or a \<^verbatim>\<open>click\<close> that raises, and
  after a \<^verbatim>\<open>move_to\<close> that raises when its destination has the keys \<^verbatim>\<open>x\<close> and
  \<^verbatim>\<open>y\<close>. A \<^verbatim>\<open>move_to\<close> whose destination lacks one of these keys raises before it
  sets the flag, and leaves the controller as it was.
\<close>

theorem flag_after_operation:
  "(is_ok (fst (move env sel pad wait s)) \<longrightarrow> \<not> moving (snd (move env sel pad wait s)))
   \<and> (is_ok (fst (click env csel pad wait wfc s)) \<longrightarrow>
        \<not> moving (snd (click env csel pad wait wfc s)))
   \<and> (is_ok (fst (move_to env d s)) \<longrightarrow> \<not> moving (snd (move_to env d s)))
   \<and> (quiet env \<and> \<not> is_ok (fst (move env sel pad wait s)) \<longrightarrow>
        moving (snd (move env sel pad wait s)))
   \<and> (quiet env \<and> \<not> is_ok (fst (click env csel pad wait wfc s)) \<longrightarrow>
        moving (snd (click env csel pad wait wfc s)))
   \<and> (quiet env \<and> \<not> is_ok (fst (move_to env d s)) \<and> d ''x'' \<noteq> None \<and> d ''y'' \<noteq> None \<longrightarrow>
        moving (snd (move_to env d s)))
   \<and> (d ''x'' = None \<or> d ''y'' = None \<longrightarrow>
        \<not> is_ok (fst (move_to env d s)) \<and> snd (move_to env d s) = s)"
proof (intro conjI impI)
  show "\<not> moving (snd (move env sel pad wait s))" if "is_ok (fst (move env sel pad wait s))"
    using returns_idleD [OF returns_idle_move that] .
  show "\<not> moving (snd (click env csel pad wait wfc s))"
    if "is_ok (fst (click env csel pad wait wfc s))"
    using returns_idleD [OF returns_idle_click that] .
  show "\<not> moving (snd (move_to env d s))" if "is_ok (fst (move_to env d s))"
    using returns_idleD [OF returns_idle_move_to that] .
next
  assume a: "quiet env \<and> \<not> is_ok (fst (move env sel pad wait s))"
  obtain r s' where m: "move env sel pad wait s = (r, s')" by (cases "move env sel pad wait s")
  with a obtain e where "r = Inl e" by (cases r) simp_all
  with m a move_raises_busy [of env sel pad wait s e s']
  show "moving (snd (move env sel pad wait s))" by simp
next
  assume a: "quiet env \<and> \<not> is_ok (fst (click env csel pad wait wfc s))"
  obtain r s' where m: "click env csel pad wait wfc s = (r, s')"
    by (cases "click env csel pad wait wfc s")
  with a obtain e where "r = Inl e" by (cases r) simp_all
  with m a click_raises_busy [of env csel pad wait wfc s e s']
  show "moving (snd (click env csel pad wait wfc s))" by simp
next
  assume a: "quiet env \<and> \<not> is_ok (fst (move_to env d s)) \<and> d ''x'' \<noteq> None \<and> d ''y'' \<noteq> None"
  obtain r s' where m: "move_to env d s = (r, s')" by (cases "move_to env d s")
  with a obtain e where "r = Inl e" by (cases r) simp_all
  with m a move_to_raises_busy [of env d s e s']
  show "moving (snd (move_to env d s))" by auto
next
  assume a: "d ''x'' = None \<or> d ''y'' = None"
  then show "\<not> is_ok (fst (move_to env d s))"
    by (auto simp: move_to_def raise_def split: option.splits)
  from a show "snd (move_to env d s) = s"
    by (auto simp: move_to_def raise_def split: option.splits)
qed

theorem flag_after_operation_witness:
  "\<not> moving (snd (move demo_env (Handle (ElementHandle 1)) None None demo_cursor))
   \<and> \<not> moving (snd (click demo_env None None None None demo_cursor))
   \<and> \<not> moving (snd (move_to demo_env [''x'' \<mapsto> 3, ''y'' \<mapsto> 4] demo_cursor))
   \<and> moving (snd (move demo_env (Str ''#missing'') None None demo_cursor))
   \<and> moving (snd (click demo_env (Some (Str ''#missing'')) None None None demo_cursor))
   \<and> moving (snd (move_to cancelled_env [''x'' \<mapsto> 3, ''y'' \<mapsto> 4] demo_cursor))
   \<and> \<not> is_ok (fst (move_to demo_env [''x'' \<mapsto> 3] demo_cursor))
   \<and> snd (move_to demo_env [''x'' \<mapsto> 3] demo_cursor) = demo_cursor"
proof -
  have q1: "quiet demo_env" by (simp add: quiet_def demo_env_def)
  have q2: "quiet cancelled_env" by (simp add: quiet_def cancelled_env_def demo_env_def)
  have ok1: "is_ok (fst (move demo_env (Handle (ElementHandle 1)) None None demo_cursor))"
    by (simp add: run_defs)
  have ok2: "is_ok (fst (click demo_env None None None None demo_cursor))"
    by (simp add: run_defs)
  have ok3: "is_ok (fst (move_to demo_env [''x'' \<mapsto> 3, ''y'' \<mapsto> 4] demo_cursor))"
    by (simp add: run_defs)
  have no1: "\<not> is_ok (fst (move demo_env (Str ''#missing'') None None demo_cursor))"
    by (simp add: run_defs)
  have no2: "\<not> is_ok (fst (click demo_env (Some (Str ''#missing'')) None None None demo_cursor))"
    by (simp add: run_defs)
  have no3: "\<not> is_ok (fst (move_to cancelled_env [''x'' \<mapsto> 3, ''y'' \<mapsto> 4] demo_cursor))"
    by (simp add: cancelled_env_def run_defs)
  have keys: "[''x'' \<mapsto> 3, ''y'' \<mapsto> (4::real)] ''x'' \<noteq> None"
    "[''x'' \<mapsto> 3, ''y'' \<mapsto> (4::real)] ''y'' \<noteq> None" by simp_all
  note a = flag_after_operation [where env = demo_env and s = demo_cursor
      and sel = "Handle (ElementHandle 1)" and csel = None and pad = None and wait = None
      and wfc = None and d = "[''x'' \<mapsto> 3, ''y'' \<mapsto> 4]"]
  note b = flag_after_operation [where env = demo_env and s = demo_cursor
      and sel = "Str ''#missing''" and csel = "Some (Str ''#missing'')" and pad = None
      and wait = None and wfc = None]
  note c = flag_after_operation [where env = cancelled_env and s = demo_cursor
      and d = "[''x'' \<mapsto> 3, ''y'' \<mapsto> 4]"]
  from a ok1 ok2 ok3
  have 1: "\<not> moving (snd (move demo_env (Handle (ElementHandle 1)) None None demo_cursor))"
    and 2: "\<not> moving (snd (click demo_env None None None None demo_cursor))"
    and 3: "\<not> moving (snd (move_to demo_env [''x'' \<mapsto> 3, ''y'' \<mapsto> 4] demo_cursor))"
    by blast+
  from b q1 no1 no2
  have 4: "moving (snd (move demo_env (Str ''#missing'') None None demo_cursor))"
    and 5: "moving (snd (click demo_env (Some (Str ''#missing'')) None None None demo_cursor))"
    by blast+
  from c q2 no3 keys
  have 6: "moving (snd (move_to cancelled_env [''x'' \<mapsto> 3, ''y'' \<mapsto> 4] demo_cursor))"
    by blast
  have nokey: "[''x'' \<mapsto> (3::real)] ''x'' = None \<or> [''x'' \<mapsto> (3::real)] ''y'' = None"
    by simp
  from flag_after_operation [where env = demo_env and s = demo_cursor and d = "[''x'' \<mapsto> 3]"]
    nokey
  have 7: "\<not> is_ok (fst (move_to demo_env [''x'' \<mapsto> 3] demo_cursor))"
    and 8: "snd (move_to demo_env [''x'' \<mapsto> 3] demo_cursor) = demo_cursor"
    by blast+
  from 1 2 3 4 5 6 7 8 show ?thesis by blast
qed

text \<open>C2 as the claim has it fails. The selector is not found, \<^verbatim>\<open>move\<close> raises and the
  flag it set is left set. A \<^verbatim>\<open>move_to\<close> without the key \<^verbatim>\<open>y\<close> raises and leaves
  the flag as it found it: set on a controller whose flag was set, clear on one whose flag
  was clear.\<close>

theorem flag_left_set_counterexample:
  "move demo_env (Str ''#missing'') None None demo_cursor
     = (Inl (Exception (not_found_message ''#missing'')),
        demo_cursor\<lparr>moving := True, history := [Call (QuerySelector ''#missing'') True]\<rparr>)
   \<and> move_to demo_env [''x'' \<mapsto> 3] (demo_cursor\<lparr>moving := True\<rparr>)
     = (Inl (Exception ''KeyError: y''), demo_cursor\<lparr>moving := True\<rparr>)
   \<and> move_to demo_env [''x'' \<mapsto> 3] demo_cursor = (Inl (Exception ''KeyError: y''), demo_cursor)"
  by (simp add: run_defs)


text \<open>
  C3 (as the code has it). The recorded position is assigned at three places. Inside
  \<^verbatim>\<open>trace_path\<close> it changes only when a point has been dispatched: after the call it
  is the last point the call dispatched, or what it was when the call dispatched none. The
  same holds of \<^verbatim>\<open>move_to\<close>, of a \<^verbatim>\<open>move\<close> that raises and of a \<^verbatim>\<open>random_move\<close>
  whose sampling or tracing raises: the position is the last point dispatched since the
  operation began, or what it was. When \<^verbatim>\<open>move\<close> returns, the position is the
  destination drawn in the target's box, and when the sampling and the trace of
  \<^verbatim>\<open>random_move\<close> return, it is the point sampled, whatever was dispatched.
  \<^verbatim>\<open>click\<close> changes the position and the points dispatched only through its
  \<^verbatim>\<open>move\<close>, and not at all without a selector; a \<^verbatim>\<open>random_move\<close> that finds the
  flag set, \<^verbatim>\<open>detect_mobile\<close> and \<^verbatim>\<open>toggle_random_move\<close> change neither.
\<close>

theorem previous_after_dispatch:
  "(\<exists>ds. dispatched (history (snd (trace_path env vs ab s))) = dispatched (history s) @ ds
       \<and> previous (snd (trace_path env vs ab s)) = last (previous s # ds) \<and> subseq ds vs)
   \<and> tracks s (snd (move_to env d s))
   \<and> (\<forall>s'. move env sel pad wait s = (Inr (), s') \<longrightarrow>
        (\<exists>box t. resolve_box env sel wait s = (Inr box, t)
           \<and> previous s' = fst (get_random_box_point env box pad (page t))))
   \<and> (\<forall>e s'. move env sel pad wait s = (Inl e, s') \<longrightarrow> tracks s s')
   \<and> previous (snd (click env csel pad wait wfc s))
       = (case csel of None \<Rightarrow> previous s
          | Some target \<Rightarrow> previous (snd (move env target pad wait s)))
   \<and> dispatched (history (snd (click env csel pad wait wfc s)))
       = (case csel of None \<Rightarrow> dispatched (history s)
          | Some target \<Rightarrow> dispatched (history (snd (move env target pad wait s))))
   \<and> (\<forall>t. \<not> moving s \<and> random_step env s = (Inr (), t) \<longrightarrow>
        (\<exists>rand t0. get_random_page_point env s = (Inr rand, t0)
           \<and> previous (snd (random_move env s)) = rand))
   \<and> (\<forall>e t. \<not> moving s \<and> random_step env s = (Inl e, t) \<longrightarrow>
        tracks s (snd (random_move env s)))
   \<and> (moving s \<longrightarrow> same_position s (snd (random_move env s)))
   \<and> same_position s (snd (detect_mobile env s))
   \<and> same_position s (toggle_random_move rnd s)"
proof (intro conjI allI impI)
  obtain r s' where "trace_path env vs ab s = (r, s')" by (cases "trace_path env vs ab s")
  from trace_path_previous [OF this] this
  show "\<exists>ds. dispatched (history (snd (trace_path env vs ab s))) = dispatched (history s) @ ds
       \<and> previous (snd (trace_path env vs ab s)) = last (previous s # ds) \<and> subseq ds vs"
    by simp
next
  show "tracks s (snd (move_to env d s))" by (rule keeps_snd [OF tracks_move_to])
next
  fix s'
  assume "move env sel pad wait s = (Inr (), s')"
  then obtain box t where r: "resolve_box env sel wait s = (Inr box, t)"
    and b: "move_to_box env box pad t = (Inr (), s')"
    unfolding move_def by (rule bind_returns)
  from move_to_box_previous [OF b] r
  show "\<exists>box t. resolve_box env sel wait s = (Inr box, t)
           \<and> previous s' = fst (get_random_box_point env box pad (page t))"
    by blast
next
  fix e s'
  assume "move env sel pad wait s = (Inl e, s')"
  from raisingD [OF raising_move this] show "tracks s s'" .
next
  from click_position [where csel = csel and s = s and env = env and pad = pad and wait = wait
      and wfc = wfc]
  show "previous (snd (click env csel pad wait wfc s))
       = (case csel of None \<Rightarrow> previous s
          | Some target \<Rightarrow> previous (snd (move env target pad wait s)))"
    by (cases csel) (simp_all add: same_position_def)
  from click_position [where csel = csel and s = s and env = env and pad = pad and wait = wait
      and wfc = wfc]
  show "dispatched (history (snd (click env csel pad wait wfc s)))
       = (case csel of None \<Rightarrow> dispatched (history s)
          | Some target \<Rightarrow> dispatched (history (snd (move env target pad wait s))))"
    by (cases csel) (simp_all add: same_position_def)
next
  fix t
  assume "\<not> moving s \<and> random_step env s = (Inr (), t)"
  then have "\<not> moving s" "random_step env s = (Inr (), t)" by simp_all
  then show "\<exists>rand t0. get_random_page_point env s = (Inr rand, t0)
           \<and> previous (snd (random_move env s)) = rand"
    by (rule random_move_sampled)
next
  fix e t
  assume "\<not> moving s \<and> random_step env s = (Inl e, t)"
  then have "\<not> moving s" "random_step env s = (Inl e, t)" by simp_all
  then show "tracks s (snd (random_move env s))" by (rule random_move_raised)
next
  assume "moving s"
  then show "same_position s (snd (random_move env s))" by (rule random_move_busy)
next
  show "same_position s (snd (detect_mobile env s))"
    by (rule keeps_snd [OF same_position_detect_mobile])
  show "same_position s (toggle_random_move rnd s)"
    by (simp add: same_position_def toggle_random_move_def)
qed

theorem previous_after_dispatch_witness:
  "move demo_env (Handle (ElementHandle 1)) None None demo_cursor
     = (Inr (), demo_cursor\<lparr>page := 4, previous := Vector 1006 1006,
          history := [Call (ScrollIntoView (ElementHandle 1)) True,
            Call (BoundingBox (ElementHandle 1)) True,
            Call (MouseMove (Vector 0 0)) True, Call (MouseMove (Vector 1126 1006)) True,
            Call (MouseMove (Vector 1126 1006)) True,
            Call (MouseMove (Vector 1012 1012)) True]\<rparr>)
   \<and> (\<exists>box t. resolve_box demo_env (Handle (ElementHandle 1)) None demo_cursor = (Inr box, t)
         \<and> Vector 1006 1006 = fst (get_random_box_point demo_env box None (page t)))
   \<and> (\<exists>ds. dispatched (history (snd (trace_path first_move_fails
              [Vector 1 1, Vector 2 2] False demo_cursor))) = ds
         \<and> previous (snd (trace_path first_move_fails [Vector 1 1, Vector 2 2] False
              demo_cursor)) = last (Vector 0 0 # ds)
         \<and> subseq ds [Vector 1 1, Vector 2 2])
   \<and> tracks demo_cursor (snd (move_to first_move_fails [''x'' \<mapsto> 3, ''y'' \<mapsto> 4] demo_cursor))
   \<and> move third_move_cancelled (Handle (ElementHandle 1)) None None demo_cursor
     = (Inl (BaseException ''CancelledError''),
        demo_cursor\<lparr>page := 3, previous := Vector 1126 1006, moving := True,
          history := [Call (ScrollIntoView (ElementHandle 1)) True,
            Call (BoundingBox (ElementHandle 1)) True,
            Call (MouseMove (Vector 0 0)) True, Call (MouseMove (Vector 1126 1006)) True,
            Call (MouseMove (Vector 1126 1006)) False]\<rparr>)
   \<and> tracks demo_cursor
        (demo_cursor\<lparr>page := 3, previous := Vector 1126 1006, moving := True,
          history := [Call (ScrollIntoView (ElementHandle 1)) True,
            Call (BoundingBox (ElementHandle 1)) True,
            Call (MouseMove (Vector 0 0)) True, Call (MouseMove (Vector 1126 1006)) True,
            Call (MouseMove (Vector 1126 1006)) False]\<rparr>)
   \<and> previous (snd (click demo_env (Some (Handle (ElementHandle 1))) None None None demo_cursor))
       = Vector 1006 1006
   \<and> previous (snd (click demo_env None None None None demo_cursor)) = Vector 0 0
   \<and> previous (snd (random_move demo_env demo_cursor)) = Vector 600 450
   \<and> tracks demo_cursor (snd (random_move cancelled_env demo_cursor))
   \<and> same_position (demo_cursor\<lparr>moving := True\<rparr>)
        (snd (random_move demo_env (demo_cursor\<lparr>moving := True\<rparr>)))"
proof -
  let ?s' = "demo_cursor\<lparr>page := 4, previous := Vector 1006 1006,
          history := [Call (ScrollIntoView (ElementHandle 1)) True,
            Call (BoundingBox (ElementHandle 1)) True,
            Call (MouseMove (Vector 0 0)) True, Call (MouseMove (Vector 1126 1006)) True,
            Call (MouseMove (Vector 1126 1006)) True,
            Call (MouseMove (Vector 1012 1012)) True]\<rparr>"
  let ?s3 = "demo_cursor\<lparr>page := 3, previous := Vector 1126 1006, moving := True,
          history := [Call (ScrollIntoView (ElementHandle 1)) True,
            Call (BoundingBox (ElementHandle 1)) True,
            Call (MouseMove (Vector 0 0)) True, Call (MouseMove (Vector 1126 1006)) True,
            Call (MouseMove (Vector 1126 1006)) False]\<rparr>"
  let ?busy = "demo_cursor\<lparr>moving := True\<rparr>"
  have run: "move demo_env (Handle (ElementHandle 1)) None None demo_cursor = (Inr (), ?s')"
    by (simp add: run_defs)
  have run3: "move third_move_cancelled (Handle (ElementHandle 1)) None None demo_cursor
      = (Inl (BaseException ''CancelledError''), ?s3)"
    by (simp add: third_move_cancelled_def run_defs)
  have p: "previous ?s' = Vector 1006 1006" by simp
  have h0: "dispatched (history demo_cursor) = []" "previous demo_cursor = Vector 0 0"
    "\<not> moving demo_cursor" "moving ?busy"
    by (simp_all add: demo_cursor_def GhostCursor_init_def origin_def)
  have step: "random_step demo_env demo_cursor
      = (Inr (), demo_cursor\<lparr>page := 2, previous := Vector 600 450,
           cdp_session := Some (CDPSession 0),
           history := [Call TargetId True, Call NewCdpSession True,
             Call GetWindowForTarget True, Call (MouseMove (Vector 0 0)) True,
             Call (MouseMove (Vector 600 450)) True]\<rparr>)"
    by (simp add: run_defs)
  have sample: "fst (get_random_page_point demo_env demo_cursor) = Inr (Vector 600 450)"
    by (simp add: run_defs)
  have step2: "random_step cancelled_env demo_cursor
      = (Inl (BaseException ''CancelledError''),
         demo_cursor\<lparr>page := 1, cdp_session := Some (CDPSession 0),
           history := [Call TargetId True, Call NewCdpSession True,
             Call GetWindowForTarget True, Call (MouseMove (Vector 0 0)) False]\<rparr>)"
    by (simp add: cancelled_env_def run_defs)
  note a = previous_after_dispatch [where env = demo_env and sel = "Handle (ElementHandle 1)"
      and pad = None and wait = None and s = demo_cursor
      and csel = "Some (Handle (ElementHandle 1))" and wfc = None]
  note b = previous_after_dispatch [where env = first_move_fails and s = demo_cursor
      and vs = "[Vector 1 1, Vector 2 2]" and ab = False and d = "[''x'' \<mapsto> 3, ''y'' \<mapsto> 4]"]
  note c = previous_after_dispatch [where env = third_move_cancelled
      and sel = "Handle (ElementHandle 1)" and pad = None and wait = None and s = demo_cursor]
  note d = previous_after_dispatch [where env = demo_env and s = demo_cursor and csel = None
      and pad = None and wait = None and wfc = None]
  note e = previous_after_dispatch [where env = cancelled_env and s = demo_cursor]
  note f = previous_after_dispatch [where env = demo_env and s = ?busy]
  from a run p
  have 1: "\<exists>box t. resolve_box demo_env (Handle (ElementHandle 1)) None demo_cursor = (Inr box, t)
         \<and> Vector 1006 1006 = fst (get_random_box_point demo_env box None (page t))"
    by metis
  from b h0
  have 2: "\<exists>ds. dispatched (history (snd (trace_path first_move_fails
              [Vector 1 1, Vector 2 2] False demo_cursor))) = ds
         \<and> previous (snd (trace_path first_move_fails [Vector 1 1, Vector 2 2] False
              demo_cursor)) = last (Vector 0 0 # ds)
         \<and> subseq ds [Vector 1 1, Vector 2 2]"
    by simp
  from b
  have 3: "tracks demo_cursor
      (snd (move_to first_move_fails [''x'' \<mapsto> 3, ''y'' \<mapsto> 4] demo_cursor))"
    by blast
  from c run3 have 4: "tracks demo_cursor ?s3" by blast
  from a run p
  have 5: "previous (snd (click demo_env (Some (Handle (ElementHandle 1))) None None None
      demo_cursor)) = Vector 1006 1006"
    by simp
  from d h0
  have 6: "previous (snd (click demo_env None None None None demo_cursor)) = Vector 0 0"
    by simp
  from d h0 step obtain rand t0 where
    "get_random_page_point demo_env demo_cursor = (Inr rand, t0)"
    "previous (snd (random_move demo_env demo_cursor)) = rand"
    by blast
  with sample
  have 7: "previous (snd (random_move demo_env demo_cursor)) = Vector 600 450" by simp
  from e h0 step2
  have 8: "tracks demo_cursor (snd (random_move cancelled_env demo_cursor))" by blast
  from f h0
  have 9: "same_position ?busy (snd (random_move demo_env ?busy))" by blast
  from run 1 2 3 run3 4 5 6 7 8 9 show ?thesis by blast
qed

text \<open>C3 as the claim has it fails: every dispatch fails, and \<^verbatim>\<open>move\<close> sets the recorded
  position to a destination, and \<^verbatim>\<open>random_move\<close> to a sampled point, that was never
  dispatched.\<close>

theorem previous_not_dispatched_counterexample:
  "previous (snd (move every_move_fails (Handle (ElementHandle 1)) None None demo_cursor))
     = Vector 1006 1006
   \<and> dispatched (history (snd (move every_move_fails (Handle (ElementHandle 1)) None None
        demo_cursor))) = []
   \<and> previous (snd (random_move every_move_fails demo_cursor)) = Vector 600 450
   \<and> dispatched (history (snd (random_move every_move_fails demo_cursor))) = []"
  by (simp add: every_move_fails_def run_defs)







text \<open>
  C10 (as the code has it). A call of \<^verbatim>\<open>detect_mobile\<close> that returns has stored what it
  returns in \<^verbatim>\<open>is_mobile\<close>. Once \<^verbatim>\<open>is_mobile\<close> is set, \<^verbatim>\<open>detect_mobile\<close> returns it
  without a query, and no sequence of operations on the controller changes it or queries the
  surface again. On a controller made by \<^verbatim>\<open>GhostCursor\<close>, at most one query ever returns;
  a query that raises stores nothing, and the next call queries again, as does every call
  made while \<^verbatim>\<open>is_mobile\<close> is not set.
\<close>

theorem detect_mobile_cached:
  "(\<forall>b s'. detect_mobile env s = (Inr b, s') \<longrightarrow> is_mobile s' = Some b)
   \<and> (\<forall>b. is_mobile s = Some b \<longrightarrow> detect_mobile env s = (Inr b, s))
   \<and> (\<forall>exc s'. detect_mobile env s = (Inl exc, s') \<longrightarrow>
         is_mobile s' = None \<and> queries (history s') = Suc (queries (history s)))
   \<and> (\<forall>b. is_mobile s = Some b \<longrightarrow>
         is_mobile (run env ops s) = Some b
         \<and> queries (history (run env ops s)) = queries (history s))
   \<and> answered (history (run env ops (GhostCursor_init pg start))) \<le> 1
   \<and> (is_mobile s = None \<longrightarrow>
         queries (history (snd (detect_mobile env s))) = Suc (queries (history s)))"
proof (intro conjI allI impI)
  assume n: "is_mobile s = None"
  obtain r t where a: "await env Evaluate (evaluate env) s = (r, t)"
    by (cases "await env Evaluate (evaluate env) s")
  have "history (snd (detect_mobile env s)) = history t"
    using n a
    by (cases r) (simp_all add: detect_mobile_def bind_def get_def return_def modify_def)
  with await_fields(3) [OF a]
  show "queries (history (snd (detect_mobile env s))) = Suc (queries (history s))"
    by (simp add: queries_def)
next
  fix exc s'
  assume d: "detect_mobile env s = (Inl exc, s')"
  have "is_mobile s' = None \<and> queries (history s') = Suc (queries (history s))"
  proof (cases "is_mobile s")
    case (Some c)
    with d show ?thesis by (simp add: detect_mobile_def bind_def get_def return_def)
  next
    case None
    obtain r t where a: "await env Evaluate (evaluate env) s = (r, t)"
      by (cases "await env Evaluate (evaluate env) s")
    with d None have "s' = t"
      by (auto simp: detect_mobile_def bind_def get_def return_def modify_def
          split: sum.splits)
    with await_fields(3,5) [OF a] None show ?thesis by (simp add: queries_def)
  qed
  then show "is_mobile s' = None"
    and "queries (history s') = Suc (queries (history s))" by simp_all
next
  fix b s'
  assume d: "detect_mobile env s = (Inr b, s')"
  show "is_mobile s' = Some b"
  proof (cases "is_mobile s")
    case (Some c)
    with d show ?thesis by (auto simp: detect_mobile_def bind_def get_def return_def)
  next
    case None
    with d show ?thesis
      by (auto simp: detect_mobile_def bind_def get_def return_def modify_def
          split: prod.splits sum.splits)
  qed
next
  fix b
  assume "is_mobile s = Some b"
  then show "detect_mobile env s = (Inr b, s)"
    by (simp add: detect_mobile_def bind_def get_def return_def)
next
  fix b
  assume b: "is_mobile s = Some b"
  from lifetime_run [of s env ops] have "settled s (run env ops s)" by (simp add: lifetime_def)
  with b show "is_mobile (run env ops s) = Some b"
    and "queries (history (run env ops s)) = queries (history s)"
    by (simp_all add: settled_def)
next
  have "determined (GhostCursor_init pg start)"
    by (simp add: determined_def GhostCursor_init_def answered_def)
  with lifetime_run [of "GhostCursor_init pg start" env ops]
  have "determined (run env ops (GhostCursor_init pg start))" by (simp add: lifetime_def)
  then show "answered (history (run env ops (GhostCursor_init pg start))) \<le> 1"
    by (simp add: determined_def split: option.splits)
qed

theorem detect_mobile_cached_witness:
  "detect_mobile demo_env demo_cursor
     = (Inr False, demo_cursor\<lparr>is_mobile := Some False, history := [Call Evaluate True]\<rparr>)
   \<and> detect_mobile demo_env
         (demo_cursor\<lparr>is_mobile := Some False, history := [Call Evaluate True]\<rparr>)
       = (Inr False, demo_cursor\<lparr>is_mobile := Some False, history := [Call Evaluate True]\<rparr>)
   \<and> is_mobile (run demo_env
         [Click None None None None, DetectMobile, Move (Str ''#button'') None None]
         (demo_cursor\<lparr>is_mobile := Some False, history := [Call Evaluate True]\<rparr>))
       = Some False
   \<and> queries (history (run demo_env
         [Click None None None None, DetectMobile, Move (Str ''#button'') None None]
         (demo_cursor\<lparr>is_mobile := Some False, history := [Call Evaluate True]\<rparr>))) = 1
   \<and> answered (history (run demo_env
         [Click None None None None, DetectMobile, Move (Str ''#button'') None None]
         (GhostCursor_init 0 origin))) \<le> 1
   \<and> is_mobile (demo_cursor\<lparr>history := [Call Evaluate False]\<rparr>) = None
   \<and> queries (history (snd (detect_mobile demo_env
         (demo_cursor\<lparr>history := [Call Evaluate False]\<rparr>)))) = 2"
proof -
  let ?s1 = "demo_cursor\<lparr>is_mobile := Some False, history := [Call Evaluate True]\<rparr>"
  let ?ops = "[Click None None None None, DetectMobile, Move (Str ''#button'') None None]"
  have d: "detect_mobile demo_env demo_cursor = (Inr False, ?s1)"
    by (simp add: run_defs)
  have c: "is_mobile ?s1 = Some False" by simp
  have q: "queries (history ?s1) = 1" by (simp add: queries_def)
  note a = detect_mobile_cached [where env = demo_env and s = demo_cursor]
  note b = detect_mobile_cached [where env = demo_env and s = ?s1 and ops = ?ops
      and pg = 0 and start = origin]
  from a d have 1: "is_mobile ?s1 = Some False" by blast
  from b c have 2: "detect_mobile demo_env ?s1 = (Inr False, ?s1)"
    and 3: "is_mobile (run demo_env ?ops ?s1) = Some False"
    and 4: "queries (history (run demo_env ?ops ?s1)) = queries (history ?s1)"
    and 5: "answered (history (run demo_env ?ops (GhostCursor_init 0 origin))) \<le> 1"
    by blast+
  have f: "detect_mobile query_fails demo_cursor
      = (Inl (Exception ''Execution context was destroyed''),
         demo_cursor\<lparr>history := [Call Evaluate False]\<rparr>)"
    by (simp add: query_fails_def run_defs)
  from detect_mobile_cached [where env = query_fails and s = demo_cursor] f
  have 6: "is_mobile (demo_cursor\<lparr>history := [Call Evaluate False]\<rparr>) = None"
    by blast
  have q2: "queries (history (demo_cursor\<lparr>history := [Call Evaluate False]\<rparr>)) = 1"
    by (simp add: queries_def)
  from detect_mobile_cached [where env = demo_env
      and s = "demo_cursor\<lparr>history := [Call Evaluate False]\<rparr>"] 6
  have "queries (history (snd (detect_mobile demo_env
         (demo_cursor\<lparr>history := [Call Evaluate False]\<rparr>))))
      = Suc (queries (history (demo_cursor\<lparr>history := [Call Evaluate False]\<rparr>)))"
    by blast
  with q2 have 7: "queries (history (snd (detect_mobile demo_env
         (demo_cursor\<lparr>history := [Call Evaluate False]\<rparr>)))) = 2"
    by simp
  from d 2 3 4 5 6 7 q show ?thesis by simp
qed

text \<open>C10 as the claim has it fails: the query raises, nothing is stored, and the second
  call queries the surface a second time.\<close>

theorem detect_mobile_queries_twice_counterexample:
  "history (snd (detect_mobile query_fails (snd (detect_mobile query_fails demo_cursor))))
     = [Call Evaluate False, Call Evaluate False]"
  by (simp add: query_fails_def run_defs)


end
